theory Spec2Isabelle
  imports Complex_Main "HOL-Library.Word" "HOL-Library.Signed_Division"
begin

unbundle bit_operations_syntax

section \<open>The RFC 3389 comfort noise decoder of libavcodec (cngdec.c)\<close>

text \<open>
  The decoder keeps one \<open>CNGContext\<close> per stream.  Its arrays are lists and its \<open>int\<close>
  fields are integers: the energies that the decoder computes lie between 0 and 810832481
  (lemmas \<open>sid_energy_range\<close> and \<open>decode_energy_range\<close>), within the 32 bits of an
  \<open>int\<close>.  A \<open>float\<close> or a \<open>double\<close> is the real number it stands for, and an
  operation on floats or doubles is the operation on reals followed by the rounding to the
  type in which C performs it (section on floating point below).
  A counted loop \<open>for (i = 0; i < n; i++)\<close> is a \<open>fold\<close> of its body over \<open>[0..<n]\<close>.
  The pseudo-random generator of libavutil (\<open>AVLFG\<close>, lfg.h) is not among the sources;
  its state is the type parameter \<open>'g\<close>, and the two operations the decoder uses,
  \<open>av_lfg_init\<close> and \<open>av_lfg_get\<close>, are parameters of the functions that call them.
\<close>

subsection \<open>Data\<close>

record 'g CNGContext =
  refl_coef :: "real list"
  target_refl_coef :: "real list"
  lpc_coef :: "real list"
  order :: nat
  energy :: int
  target_energy :: int
  inited :: int
  filter_out :: "real list"
  excitation :: "real list"
  lfg :: 'g

record 'g AVCodecContext =
  channels :: int
  sample_rate :: int
  frame_size :: nat
  priv_data :: "'g CNGContext"

text \<open>The part of \<open>AVFrame\<close> the decoder fills: the sample count and the sample buffer
  \<open>data[0]\<close>, read as an array of \<open>int16_t\<close>.\<close>

record AVFrame =
  nb_samples :: nat
  data0 :: "16 word list"

definition frame_samples :: "AVFrame \<Rightarrow> 16 word list" where
  "frame_samples fr = take (nb_samples fr) (data0 fr)"

text \<open>\<open>AVERROR(ENOMEM)\<close>.\<close>

definition AVERROR_ENOMEM :: int where
  "AVERROR_ENOMEM = - 12"

subsection \<open>Conversions of C\<close>

text \<open>A \<open>double\<close> assigned to an \<open>int\<close> is truncated towards zero.\<close>

definition c_double_to_int :: "real \<Rightarrow> int" where
  "c_double_to_int x = (if 0 \<le> x then \<lfloor>x\<rfloor> else \<lceil>x\<rceil>)"

text \<open>A \<open>float\<close> assigned to an \<open>int16_t\<close> is truncated towards zero; C leaves the
  conversion of a value outside the range of the target undefined, the model reduces it
  modulo \<open>2 ^ 16\<close>.\<close>

definition c_float_to_int16 :: "real \<Rightarrow> 16 word" where
  "c_float_to_int16 x = word_of_int (c_double_to_int x)"

text \<open>\<open>memcpy(dst, src + off, n * sizeof(*dst))\<close> and \<open>memset(dst, 0, n * sizeof(*dst))\<close>
  on arrays of floats.\<close>

definition memcpy_f :: "real list \<Rightarrow> real list \<Rightarrow> nat \<Rightarrow> nat \<Rightarrow> real list" where
  "memcpy_f dst src off n = take n (drop off src) @ drop n dst"

definition memset0_f :: "real list \<Rightarrow> nat \<Rightarrow> real list" where
  "memset0_f dst n = replicate n 0 @ drop n dst"

subsection \<open>Floating point\<close>

text \<open>
  The arithmetic of C on \<open>float\<close> and \<open>double\<close> is that of IEEE 754 in the rounding mode
  to nearest, each operation evaluated in the type that the usual arithmetic conversions
  give its operands and rounded to that type (\<open>FLT_EVAL_METHOD\<close> 0, no contraction of a
  product and a sum into one operation).  The conversion of a \<open>float\<close> to \<open>double\<close> is
  exact.
\<close>

text \<open>The integer nearest to a real number, the even one of the two when it lies half way
  between them.\<close>

definition round_nearest_even :: "real \<Rightarrow> int" where
  "round_nearest_even x =
     (let n = \<lfloor>x\<rfloor>; d = x - of_int n
      in if d < 1 / 2 then n else if 1 / 2 < d then n + 1 else if even n then n else n + 1)"

text \<open>
  The binary floating-point number nearest to \<open>x\<close>, ties to even, in a format of \<open>p\<close>
  significant bits whose normal numbers have the exponents from \<open>emin\<close> upwards: with
  \<open>e\<close> the exponent of \<open>x\<close> (or \<open>emin\<close>, for a subnormal result), the result is the multiple
  of \<open>2\<^sup>e\<^sup>-\<^sup>p\<^sup>+\<^sup>1\<close> nearest to \<open>x\<close>.  The format has no largest number here: the rounding of a
  number beyond the range of the format, which gives an infinity in C, is not modelled.
\<close>

definition fp_round :: "nat \<Rightarrow> int \<Rightarrow> real \<Rightarrow> real" where
  "fp_round p emin x =
     (if x = 0 then 0
      else let e = max \<lfloor>log 2 \<bar>x\<bar>\<rfloor> emin; ulp = 2 powr of_int (e - int p + 1)
           in of_int (round_nearest_even (x / ulp)) * ulp)"

text \<open>IEEE 754 single and double precision, the \<open>float\<close> and \<open>double\<close> of C.\<close>

definition to_float :: "real \<Rightarrow> real" where
  "to_float = fp_round 24 (- 126)"

definition to_double :: "real \<Rightarrow> real" where
  "to_double = fp_round 53 (- 1022)"

text \<open>
  A type of the single precision numbers, for \<open>make_lpc_coefs\<close>, which computes on
  \<open>float\<close> with the operators \<open>+\<close> and \<open>*\<close>: the sum and the product of two floats are
  the real sum and product, rounded.  \<open>f32 x\<close> is the float of value \<open>x\<close> when \<open>x\<close> is the
  value of a float, as every cell of an array of floats is.
\<close>

typedef float32 = "range to_float"
  by auto

instantiation float32 :: "{plus,times}"
begin

definition plus_float32 :: "float32 \<Rightarrow> float32 \<Rightarrow> float32" where
  "plus_float32 a b = Abs_float32 (to_float (Rep_float32 a + Rep_float32 b))"

definition times_float32 :: "float32 \<Rightarrow> float32 \<Rightarrow> float32" where
  "times_float32 a b = Abs_float32 (to_float (Rep_float32 a * Rep_float32 b))"

instance ..

end

definition f32 :: "real \<Rightarrow> float32" where
  "f32 x = Abs_float32 (to_float x)"

subsection \<open>cng\_decode\_init and cng\_decode\_flush\<close>

text \<open>
  \<open>malloc_ok k\<close> tells whether the \<open>k\<close>-th of the five calls of \<open>av_mallocz\<close> succeeds.
  The fields \<open>energy\<close>, \<open>target_energy\<close> and \<open>inited\<close> are not assigned by the function:
  libavcodec hands it a zero-filled \<open>priv_data\<close>.
\<close>

definition cng_decode_init ::
  "(32 word \<Rightarrow> 'g) \<Rightarrow> (nat \<Rightarrow> bool) \<Rightarrow> 'g AVCodecContext \<Rightarrow> int + 'g AVCodecContext" where
  "cng_decode_init av_lfg_init malloc_ok avctx =
    (let avctx1 = avctx\<lparr>channels := 1, sample_rate := 8000\<rparr>;
         p = (priv_data avctx1)\<lparr>order := 12\<rparr>;
         avctx2 = avctx1\<lparr>frame_size := 640\<rparr>;
         p = p\<lparr>refl_coef := replicate (order p) 0\<rparr>;
         p = p\<lparr>target_refl_coef := replicate (order p) 0\<rparr>;
         p = p\<lparr>lpc_coef := replicate (order p) 0\<rparr>;
         p = p\<lparr>filter_out := replicate (frame_size avctx2 + order p) 0\<rparr>;
         p = p\<lparr>excitation := replicate (frame_size avctx2) 0\<rparr>
     in if \<not> malloc_ok 0 \<or> \<not> malloc_ok 1 \<or> \<not> malloc_ok 2 \<or> \<not> malloc_ok 3 \<or> \<not> malloc_ok 4
        then Inl AVERROR_ENOMEM
        else Inr (avctx2\<lparr>priv_data := p\<lparr>lfg := av_lfg_init 0\<rparr>\<rparr>))"

definition cng_decode_flush :: "'g AVCodecContext \<Rightarrow> 'g AVCodecContext" where
  "cng_decode_flush avctx = avctx\<lparr>priv_data := (priv_data avctx)\<lparr>inited := 0\<rparr>\<rparr>"

text \<open>The contents of \<open>priv_data\<close> that \<open>cng_decode_init\<close> relies on.\<close>

definition priv_data_zeroed :: "'g AVCodecContext \<Rightarrow> bool" where
  "priv_data_zeroed avctx \<longleftrightarrow>
     energy (priv_data avctx) = 0 \<and> target_energy (priv_data avctx) = 0 \<and>
     inited (priv_data avctx) = 0"

subsection \<open>make\_lpc\_coefs\<close>

text \<open>
  The function works on two arrays, its local \<open>buf[100]\<close> and the caller's \<open>lpc\<close>, through
  the two pointers \<open>next\<close> and \<open>cur\<close> that it swaps after every order.  The model keeps both
  arrays in a store and the pointers as names of the arrays.  \<open>buf\<close> is not initialised by
  the C code: its first contents are a parameter.  The arithmetic is that of any type with
  an addition and a multiplication; the decoder uses it on \<open>float32\<close>.
\<close>

datatype coef_ptr = BUF | LPC

record 'a coef_store =
  buf_mem :: "'a list"
  lpc_mem :: "'a list"

definition arr :: "'a coef_store \<Rightarrow> coef_ptr \<Rightarrow> 'a list" where
  "arr st a = (case a of BUF \<Rightarrow> buf_mem st | LPC \<Rightarrow> lpc_mem st)"

definition rd :: "'a coef_store \<Rightarrow> coef_ptr \<Rightarrow> nat \<Rightarrow> 'a" where
  "rd st a i = arr st a ! i"

definition wr :: "'a coef_store \<Rightarrow> coef_ptr \<Rightarrow> nat \<Rightarrow> 'a \<Rightarrow> 'a coef_store" where
  "wr st a i v = (case a of BUF \<Rightarrow> st\<lparr>buf_mem := (buf_mem st)[i := v]\<rparr>
                          | LPC \<Rightarrow> st\<lparr>lpc_mem := (lpc_mem st)[i := v]\<rparr>)"

text \<open>The inner loop \<open>for (i = 0; i < m; i++) next[i] = cur[i] + refl[m] * cur[m - i - 1]\<close>.\<close>

definition lpc_inner ::
  "'a::{plus,times} list \<Rightarrow> nat \<Rightarrow> coef_ptr \<Rightarrow> coef_ptr \<Rightarrow> 'a coef_store \<Rightarrow> 'a coef_store" where
  "lpc_inner refls m nxt cur st =
     fold (\<lambda>i s. wr s nxt i (rd s cur i + refls ! m * rd s cur (m - i - 1))) [0..<m] st"

text \<open>One round of the outer loop, with the swap of the two pointers at its end.\<close>

definition lpc_round ::
  "'a::{plus,times} list \<Rightarrow> nat \<Rightarrow> 'a coef_store \<times> coef_ptr \<times> coef_ptr
     \<Rightarrow> 'a coef_store \<times> coef_ptr \<times> coef_ptr" where
  "lpc_round refls m = (\<lambda>(st, nxt, cur).
     (lpc_inner refls m nxt cur (wr st nxt m (refls ! m)), cur, nxt))"

definition lpc_loop ::
  "'a::{plus,times} list \<Rightarrow> nat \<Rightarrow> 'a coef_store \<times> coef_ptr \<times> coef_ptr
     \<Rightarrow> 'a coef_store \<times> coef_ptr \<times> coef_ptr" where
  "lpc_loop refls n = fold (lpc_round refls) [0..<n]"

text \<open>\<open>buf0 i\<close> is what the 100 cells of \<open>buf\<close> hold on entry.\<close>

definition make_lpc_coefs ::
  "(nat \<Rightarrow> 'a::{plus,times}) \<Rightarrow> 'a list \<Rightarrow> 'a list \<Rightarrow> nat \<Rightarrow> 'a list" where
  "make_lpc_coefs buf0 lpc refls ord =
     (case lpc_loop refls ord (\<lparr>buf_mem = map buf0 [0..<100], lpc_mem = lpc\<rparr>, BUF, LPC) of
        (st, nxt, cur) \<Rightarrow>
          if cur \<noteq> LPC then take ord (arr st cur) @ drop ord (lpc_mem st)
          else lpc_mem st)"

text \<open>
  The step-up recursion as the specification words it: the solution of order \<open>m + 1\<close> has
  the reflection coefficient \<open>refl[m]\<close> as its trailing coefficient, and each earlier tap
  \<open>i\<close> is \<open>prev[i] + refl[m] * prev[m - 1 - i]\<close>, where \<open>prev\<close> is the solution of order
  \<open>m\<close>.
\<close>

definition step_up :: "'a::{plus,times} list \<Rightarrow> 'a \<Rightarrow> 'a list" where
  "step_up prev k =
     map (\<lambda>i. prev ! i + k * prev ! (length prev - 1 - i)) [0..<length prev] @ [k]"

definition step_up_recursion :: "'a::{plus,times} list \<Rightarrow> 'a list" where
  "step_up_recursion refls = foldl step_up [] refls"

subsection \<open>cng\_decode\_frame\<close>

text \<open>Lines 116 to 123: a packet that is not empty sets the targets.  The quotient
  \<open>(byte - 127) / 128.0\<close> is a multiple of \<open>1/128\<close> between -1 and 1, which double and
  single precision hold exactly; the energy is the truncation of the real number
  \<open>1081109975 * 10^(dbov/10) * 0.75\<close>, of which \<open>pow\<close> and the two products in double
  precision give an approximation.\<close>

definition sid_update :: "8 word list \<Rightarrow> 'g CNGContext \<Rightarrow> 'g CNGContext" where
  "sid_update pkt p =
     (if length pkt \<noteq> 0 then
        let dbov = - uint (pkt ! 0);
            p = p\<lparr>target_energy :=
                    c_double_to_int (1081109975 * (10 powr (real_of_int dbov / 10)) * 0.75)\<rparr>;
            p = p\<lparr>target_refl_coef := memset0_f (target_refl_coef p) (order p)\<rparr>
        in fold (\<lambda>i q. q\<lparr>target_refl_coef :=
                   (target_refl_coef q)[i := real_of_int (uint (pkt ! (1 + i)) - 127) / 128]\<rparr>)
             [0..<min (length pkt - 1) (order p)] p
      else p)"

text \<open>The right-hand side of line 128, \<open>0.6 * refl_coef[i] + 0.4 * target_refl_coef[i]\<close>: the
  two constants are doubles, so the products and the sum are computed in double precision,
  and the assignment rounds the sum to a float.\<close>

definition smooth_coef :: "real \<Rightarrow> real \<Rightarrow> real" where
  "smooth_coef r t =
     to_float (to_double (to_double (to_double 0.6 * r) + to_double (to_double 0.4 * t)))"

text \<open>Lines 125 to 133: the smoothing of the energy and of the reflection coefficients,
  or their first setting.\<close>

definition smooth_update :: "'g CNGContext \<Rightarrow> 'g CNGContext" where
  "smooth_update p =
     (if inited p \<noteq> 0 then
        let p = p\<lparr>energy := energy p sdiv 2 + target_energy p sdiv 2\<rparr>
        in fold (\<lambda>i q. q\<lparr>refl_coef :=
                   (refl_coef q)[i := smooth_coef (refl_coef q ! i) (target_refl_coef q ! i)]\<rparr>)
             [0..<order p] p
      else
        let p = p\<lparr>energy := target_energy p\<rparr>;
            p = p\<lparr>refl_coef := memcpy_f (refl_coef p) (target_refl_coef p) 0 (order p)\<rparr>
        in p\<lparr>inited := 1\<rparr>)"

text \<open>Line 137, \<open>e *= 1.0 - refl_coef[i] * refl_coef[i]\<close>: the square is a product of floats,
  the difference and the product with \<open>e\<close> are computed in double precision, and the
  assignment to \<open>e\<close> rounds to a float.\<close>

definition gain_step :: "real \<Rightarrow> real \<Rightarrow> real" where
  "gain_step e r = to_float (to_double (e * to_double (1.0 - to_float (r * r))))"

text \<open>Lines 136 and 137: \<open>e\<close> starts at 1.\<close>

definition prediction_gain :: "'g CNGContext \<Rightarrow> real" where
  "prediction_gain p = fold (\<lambda>i e. gain_step e (refl_coef p ! i)) [0..<order p] (to_float 1.0)"

text \<open>Line 139, \<open>scaling = sqrt(e * energy / 1081109975)\<close>, with \<open>e\<close> a float and \<open>energy\<close>
  an \<open>int\<close>: the two integers are converted to float, the product and the quotient are
  operations on floats, \<open>sqrt\<close> computes in double precision, and the assignment rounds to
  a float.\<close>

definition noise_scaling :: "real \<Rightarrow> int \<Rightarrow> real" where
  "noise_scaling e en =
     to_float (to_double (sqrt
       (to_float (to_float (e * to_float (real_of_int en)) / to_float 1081109975))))"

text \<open>Line 141: \<open>int r = (av_lfg_get(&p->lfg) & 0xffff) - 0x8000\<close>, an unsigned
  subtraction whose result is read as an \<open>int\<close>.\<close>

definition centre16 :: "32 word \<Rightarrow> int" where
  "centre16 x = sint ((x AND 0xffff) - 0x8000)"

text \<open>Lines 140 to 143; \<open>scaling * r\<close> is a product of floats, \<open>r\<close> converted.\<close>

definition generate_excitation ::
  "('g \<Rightarrow> 32 word \<times> 'g) \<Rightarrow> real \<Rightarrow> nat \<Rightarrow> 'g CNGContext \<Rightarrow> 'g CNGContext" where
  "generate_excitation av_lfg_get scaling n p =
     fold (\<lambda>i q. case av_lfg_get (lfg q) of (x, g) \<Rightarrow>
                   let r = centre16 x
                   in q\<lparr>lfg := g,
                        excitation := (excitation q)[i := to_float (scaling * to_float (real_of_int r))]\<rparr>)
       [0..<n] p"

text \<open>
  Modelled from the spec: \<open>ff_celp_lp_synthesis_filterf\<close> (celp_filters.c is not among
  the sources).  An all-pole synthesis filter of order \<open>filter_length\<close>: it consumes
  \<open>buffer_length\<close> input samples and writes as many output samples behind the
  \<open>filter_length\<close> samples that lie in front of \<open>out\<close>, which are its initial state.  The
  output array is the buffer \<open>b\<close> from the offset \<open>off\<close> on, as in the call
  \<open>ff_celp_lp_synthesis_filterf(p->filter_out + p->order, \<dots>)\<close>.  The spec gives neither
  the order of the filter's operations nor their rounding: the model computes each sample
  as the real number that the filter's equation gives.
\<close>

definition celp_lp_synthesis_filterf ::
  "real list \<Rightarrow> nat \<Rightarrow> real list \<Rightarrow> real list \<Rightarrow> nat \<Rightarrow> nat \<Rightarrow> real list" where
  "celp_lp_synthesis_filterf b off filter_coeffs inp buffer_length filter_length =
     fold (\<lambda>n out. out[off + n :=
              fold (\<lambda>i acc. acc - filter_coeffs ! (i - 1) * out ! (off + n - i))
                [1..<filter_length + 1] (inp ! n)])
       [0..<buffer_length] b"

text \<open>Lines 116 to 145: everything the function does to the context before it asks for
  the frame's buffer.\<close>

definition synthesize ::
  "('g \<Rightarrow> 32 word \<times> 'g) \<Rightarrow> (nat \<Rightarrow> real) \<Rightarrow> nat \<Rightarrow> 8 word list \<Rightarrow> 'g CNGContext
     \<Rightarrow> 'g CNGContext" where
  "synthesize av_lfg_get buf0 fs pkt p =
     (let p = sid_update pkt p;
          p = smooth_update p;
          p = p\<lparr>lpc_coef := map Rep_float32
                 (make_lpc_coefs (\<lambda>i. f32 (buf0 i)) (map f32 (lpc_coef p)) (map f32 (refl_coef p))
                    (order p))\<rparr>;
          e = prediction_gain p;
          scaling = noise_scaling e (energy p);
          p = generate_excitation av_lfg_get scaling fs p
      in p\<lparr>filter_out := celp_lp_synthesis_filterf (filter_out p) (order p) (lpc_coef p)
                             (excitation p) fs (order p)\<rparr>)"

text \<open>
  The call.  \<open>pkt\<close> is the packet's data (\<open>avpkt->size\<close> is its length); \<open>gb_ret\<close> and
  \<open>gb_data\<close> are what \<open>ff_get_buffer\<close> answers: its return value and, when that is not
  negative, the sample buffer \<open>data[0]\<close> it has acquired, with whatever contents.  The
  result is the error code, or the number of bytes consumed together with the frame.
\<close>

definition cng_decode_frame ::
  "('g \<Rightarrow> 32 word \<times> 'g) \<Rightarrow> (nat \<Rightarrow> real) \<Rightarrow> 'g AVCodecContext \<Rightarrow> 8 word list \<Rightarrow> int \<Rightarrow> 16 word list
     \<Rightarrow> (int + int \<times> AVFrame) \<times> 'g AVCodecContext" where
  "cng_decode_frame av_lfg_get buf0 avctx pkt gb_ret gb_data =
     (let buf_size = int (length pkt);
          p = synthesize av_lfg_get buf0 (frame_size avctx) pkt (priv_data avctx);
          avframe = \<lparr>nb_samples = frame_size avctx, data0 = gb_data\<rparr>
      in if gb_ret < 0 then (Inl gb_ret, avctx\<lparr>priv_data := p\<rparr>)
         else
           let buf_out = fold (\<lambda>i out. out[i := c_float_to_int16 (filter_out p ! (i + order p))])
                           [0..<frame_size avctx] (data0 avframe);
               p = p\<lparr>filter_out := memcpy_f (filter_out p) (filter_out p) (frame_size avctx) (order p)\<rparr>
           in (Inr (buf_size, avframe\<lparr>data0 := buf_out\<rparr>), avctx\<lparr>priv_data := p\<rparr>))"

text \<open>The sizes of the arrays as \<open>cng_decode_init\<close> allocates them; \<open>buf[100]\<close> of
  \<open>make_lpc_coefs\<close> holds the coefficients of an order up to 100, and the last \<open>memcpy\<close>
  of \<open>cng_decode_frame\<close> copies between disjoint regions when the order is at most the
  frame size.  With other sizes the C code reads and writes outside its arrays, which the
  model does not follow: what is proved of a call is proved of a context of these sizes.\<close>

definition cng_wf :: "'g AVCodecContext \<Rightarrow> bool" where
  "cng_wf avctx \<longleftrightarrow>
     (let p = priv_data avctx in
        length (refl_coef p) = order p \<and> length (target_refl_coef p) = order p \<and>
        length (lpc_coef p) = order p \<and>
        length (filter_out p) = frame_size avctx + order p \<and>
        length (excitation p) = frame_size avctx \<and>
        order p \<le> 100 \<and> order p \<le> frame_size avctx)"

subsection \<open>Sequences of calls\<close>

text \<open>
  What happens to a decoder between its opening and its closing: calls of
  \<open>cng_decode_frame\<close>, each with its packet, the first contents of \<open>buf\<close> and the answer
  of \<open>ff_get_buffer\<close>, and calls of \<open>cng_decode_flush\<close>.
\<close>

datatype event = Decode "8 word list" "nat \<Rightarrow> real" int "16 word list" | Flush

text \<open>One event; its first result is the samples of the frame it has emitted, if any.\<close>

fun cng_step ::
  "('g \<Rightarrow> 32 word \<times> 'g) \<Rightarrow> 'g AVCodecContext \<Rightarrow> event \<Rightarrow> 16 word list option \<times> 'g AVCodecContext" where
  "cng_step av_lfg_get avctx (Decode pkt buf0 gb_ret gb_data) =
     (case cng_decode_frame av_lfg_get buf0 avctx pkt gb_ret gb_data of
        (Inl err, avctx') \<Rightarrow> (None, avctx')
      | (Inr (n, fr), avctx') \<Rightarrow> (Some (frame_samples fr), avctx'))"
| "cng_step av_lfg_get avctx Flush = (None, cng_decode_flush avctx)"

fun cng_run ::
  "('g \<Rightarrow> 32 word \<times> 'g) \<Rightarrow> 'g AVCodecContext \<Rightarrow> event list
     \<Rightarrow> 16 word list option list \<times> 'g AVCodecContext" where
  "cng_run av_lfg_get avctx [] = ([], avctx)"
| "cng_run av_lfg_get avctx (ev # evs) =
     (case cng_step av_lfg_get avctx ev of
        (out, avctx') \<Rightarrow>
          (case cng_run av_lfg_get avctx' evs of (outs, avctx'') \<Rightarrow> (out # outs, avctx'')))"

text \<open>The output of the synthesis filter in the context: the \<open>frame_size\<close> samples of
  \<open>filter_out\<close> behind the first \<open>order\<close> ones.\<close>

definition synthesis_output :: "'g AVCodecContext \<Rightarrow> real list" where
  "synthesis_output avctx =
     take (frame_size avctx) (drop (order (priv_data avctx)) (filter_out (priv_data avctx)))"

text \<open>The output of the synthesis filter for the last frame that a sequence of events has
  emitted, if it has emitted one; \<open>prev\<close> is that of the frames before the sequence.\<close>

fun last_synthesis ::
  "('g \<Rightarrow> 32 word \<times> 'g) \<Rightarrow> 'g AVCodecContext \<Rightarrow> real list option \<Rightarrow> event list
     \<Rightarrow> real list option" where
  "last_synthesis av_lfg_get avctx prev [] = prev"
| "last_synthesis av_lfg_get avctx prev (ev # evs) =
     (case cng_step av_lfg_get avctx ev of
        (None, avctx') \<Rightarrow> last_synthesis av_lfg_get avctx' prev evs
      | (Some fr, avctx') \<Rightarrow>
          last_synthesis av_lfg_get avctx' (Some (synthesis_output avctx')) evs)"

text \<open>The first \<open>n\<close> numbers that the generator draws from the state \<open>g\<close>, and its state
  after them.\<close>

fun lfg_draws :: "('g \<Rightarrow> 32 word \<times> 'g) \<Rightarrow> 'g \<Rightarrow> nat \<Rightarrow> 32 word list" where
  "lfg_draws av_lfg_get g 0 = []"
| "lfg_draws av_lfg_get g (Suc n) =
     (case av_lfg_get g of (x, g') \<Rightarrow> x # lfg_draws av_lfg_get g' n)"

fun lfg_skip :: "('g \<Rightarrow> 32 word \<times> 'g) \<Rightarrow> 'g \<Rightarrow> nat \<Rightarrow> 'g" where
  "lfg_skip av_lfg_get g 0 = g"
| "lfg_skip av_lfg_get g (Suc n) = (case av_lfg_get g of (x, g') \<Rightarrow> lfg_skip av_lfg_get g' n)"

text \<open>Two events that differ in nothing but what the decoder does not control: the first
  contents of \<open>buf\<close>, and the buffer that \<open>ff_get_buffer\<close> hands out (large enough for the
  frame) or the error code with which it fails.\<close>

fun same_input :: "nat \<Rightarrow> event \<Rightarrow> event \<Rightarrow> bool" where
  "same_input fs (Decode pkt b r d) (Decode pkt' b' r' d') \<longleftrightarrow>
     pkt = pkt' \<and>
     (r < 0 \<and> r' < 0 \<or> 0 \<le> r \<and> 0 \<le> r' \<and> fs \<le> length d \<and> fs \<le> length d')"
| "same_input fs Flush Flush \<longleftrightarrow> True"
| "same_input fs _ _ \<longleftrightarrow> False"

text \<open>What a packet that is not empty sets the targets to: the energy of its first byte, and
  the coefficients of the bytes behind it, with zeros in the slots that have no byte.\<close>

definition sid_energy :: "8 word list \<Rightarrow> int" where
  "sid_energy pkt = c_double_to_int (1081109975 * (10 powr (real_of_int (- uint (pkt ! 0)) / 10)) * 0.75)"

definition sid_coefs :: "8 word list \<Rightarrow> nat \<Rightarrow> real list" where
  "sid_coefs pkt ord = map (\<lambda>i. real_of_int (uint (pkt ! (1 + i)) - 127) / 128) [0..<min (length pkt - 1) ord]
      @ replicate (ord - min (length pkt - 1) ord) 0"

subsection \<open>A decoder to run\<close>

text \<open>A stand-in for the generator, which counts, and the decoder that \<open>cng_decode_init\<close>
  makes of a zero-filled context when every allocation succeeds.\<close>

definition counter_init :: "32 word \<Rightarrow> nat" where
  "counter_init seed = unat seed"

definition counter_get :: "nat \<Rightarrow> 32 word \<times> nat" where
  "counter_get g = (word_of_nat g, Suc g)"

definition zeroed_avctx :: "nat AVCodecContext" where
  "zeroed_avctx =
     \<lparr>channels = 0, sample_rate = 0, frame_size = 0,
      priv_data = \<lparr>refl_coef = [], target_refl_coef = [], lpc_coef = [], order = 0, energy = 0,
                   target_energy = 0, inited = 0, filter_out = [], excitation = [], lfg = 0\<rparr>\<rparr>"

definition fresh_avctx :: "nat AVCodecContext" where
  "fresh_avctx =
     (case cng_decode_init counter_init (\<lambda>k. True) zeroed_avctx of
        Inr avctx \<Rightarrow> avctx | Inl err \<Rightarrow> zeroed_avctx)"

text \<open>A decoder of order 1 with frames of two samples, after its first frame.\<close>

definition small_avctx :: "nat AVCodecContext" where
  "small_avctx =
     \<lparr>channels = 1, sample_rate = 8000, frame_size = 2,
      priv_data = \<lparr>refl_coef = [1 / 2], target_refl_coef = [1 / 4], lpc_coef = [1 / 2], order = 1,
                   energy = 5, target_energy = 3, inited = 1, filter_out = [0, 0, 0],
                   excitation = [0, 0], lfg = 0\<rparr>\<rparr>"

text \<open>The decoder after a first call with the packet \<open>pkt\<close>.\<close>

definition decoded_once :: "8 word list \<Rightarrow> nat AVCodecContext" where
  "decoded_once pkt =
     snd (cng_decode_frame counter_get (\<lambda>i. 0) fresh_avctx pkt 0 (replicate 640 0))"

section \<open>Properties\<close>

subsection \<open>Rounding\<close>

lemma rne_of_int [simp]: "round_nearest_even (of_int n) = n"
  by (simp add: round_nearest_even_def)

lemma rne_cases: "round_nearest_even x = \<lfloor>x\<rfloor> \<or> round_nearest_even x = \<lfloor>x\<rfloor> + 1"
  by (simp add: round_nearest_even_def Let_def)

lemma rne_integer: "x = of_int \<lfloor>x\<rfloor> \<Longrightarrow> round_nearest_even x = \<lfloor>x\<rfloor>"
  by (simp add: round_nearest_even_def Let_def)

lemma rne_mono:
  assumes "x \<le> y"
  shows "round_nearest_even x \<le> round_nearest_even y"
proof (cases "\<lfloor>x\<rfloor> = \<lfloor>y\<rfloor>")
  case True
  then have "x - of_int \<lfloor>x\<rfloor> \<le> y - of_int \<lfloor>y\<rfloor>" using assms by simp
  then show ?thesis
    unfolding round_nearest_even_def Let_def True by auto
next
  case False
  then have "\<lfloor>x\<rfloor> < \<lfloor>y\<rfloor>" using floor_mono [OF assms] by simp
  moreover have "round_nearest_even x \<le> \<lfloor>x\<rfloor> + 1" using rne_cases [of x] by auto
  moreover have "\<lfloor>y\<rfloor> \<le> round_nearest_even y" using rne_cases [of y] by auto
  ultimately show ?thesis by linarith
qed

lemma rne_neg: "round_nearest_even (- x) = - round_nearest_even x"
proof (cases "x = of_int \<lfloor>x\<rfloor>")
  case True
  then have "- x = of_int (- \<lfloor>x\<rfloor>)" by simp
  then have "round_nearest_even (- x) = - \<lfloor>x\<rfloor>"
    by (metis rne_of_int)
  then show ?thesis using rne_integer [OF True] by simp
next
  case False
  then have lt: "of_int \<lfloor>x\<rfloor> < x" by (metis floor_correct less_eq_real_def)
  have ub: "x < of_int \<lfloor>x\<rfloor> + 1" by linarith
  have f: "\<lfloor>- x\<rfloor> = - \<lfloor>x\<rfloor> - 1"
  proof (rule floor_unique)
    show "of_int (- \<lfloor>x\<rfloor> - 1) \<le> - x" by simp linarith
    show "- x < of_int (- \<lfloor>x\<rfloor> - 1) + 1" using lt by simp
  qed
  have e: "even (- \<lfloor>x\<rfloor> - 1) \<longleftrightarrow> odd \<lfloor>x\<rfloor>" by simp
  show ?thesis
    unfolding round_nearest_even_def Let_def f e using lt
    by (auto simp: field_simps)
qed

lemma rne_le: "x \<le> of_int n \<Longrightarrow> round_nearest_even x \<le> n"
  using rne_mono [of x "of_int n"] by simp

lemma rne_ge: "of_int n \<le> x \<Longrightarrow> n \<le> round_nearest_even x"
  using rne_mono [of "of_int n" x] by simp


lemma fp_round_0 [simp]: "fp_round p emin 0 = 0"
  by (simp add: fp_round_def)

lemma fp_round_neg: "fp_round p emin (- x) = - fp_round p emin x"
  by (simp add: fp_round_def Let_def rne_neg)

lemma fp_round_exp:
  assumes "x \<noteq> 0" and "max \<lfloor>log 2 \<bar>x\<bar>\<rfloor> emin = e"
  shows "fp_round p emin x =
     of_int (round_nearest_even (x / 2 powr of_int (e - int p + 1))) * 2 powr of_int (e - int p + 1)"
  using assms by (simp add: fp_round_def Let_def)

lemma floor_log2_eq:
  assumes "2 powr of_int k \<le> \<bar>x\<bar>" and "\<bar>x\<bar> < 2 powr of_int (k + 1)"
  shows "\<lfloor>log 2 \<bar>x\<bar>\<rfloor> = k"
proof -
  have "0 < \<bar>x\<bar>" using assms(1) by (smt (verit) powr_gt_zero)
  then show ?thesis
    using assms by (subst floor_log_eq_powr_iff) simp_all
qed

lemma two_powr_neg: "2 powr of_int (- int j) = 1 / (2::real) ^ j"
  by (simp add: powr_minus_divide powr_realpow)

lemma two_powr_nat: "2 powr of_int (int k) = (2::real) ^ k"
  by (simp add: powr_realpow)

lemma two_powr_Suc: "2 powr of_int (i + 1) = 2 * (2::real) powr of_int i"
  by (simp add: powr_add)

text \<open>The value of a rounding, for a number whose binary exponent is known.\<close>

lemma fp_round_small:
  assumes "1 \<le> \<bar>x\<bar> * 2 ^ j" and "\<bar>x\<bar> * 2 ^ j < 2" and "emin \<le> - int j" and "0 < p"
  shows "fp_round p emin x = of_int (round_nearest_even (x * 2 ^ (j + p - 1))) / 2 ^ (j + p - 1)"
proof -
  have x: "x \<noteq> 0" using assms(1) by auto
  have "2 powr of_int (- int j) \<le> \<bar>x\<bar>" "\<bar>x\<bar> < 2 powr of_int (- int j + 1)"
    unfolding two_powr_Suc two_powr_neg using assms(1,2) by (simp_all add: field_simps)
  then have "\<lfloor>log 2 \<bar>x\<bar>\<rfloor> = - int j" by (rule floor_log2_eq)
  then have e: "max \<lfloor>log 2 \<bar>x\<bar>\<rfloor> emin = - int j" using assms(3) by simp
  have "- int j - int p + 1 = - int (j + p - 1)" using assms(4) by simp
  then have u: "2 powr of_int (- int j - int p + 1) = 1 / (2::real) ^ (j + p - 1)"
    by (simp only: two_powr_neg)
  show ?thesis
    unfolding fp_round_exp [OF x e] u by simp
qed

lemma fp_round_mid:
  assumes "2 ^ k \<le> \<bar>x\<bar>" and "\<bar>x\<bar> < 2 ^ (k + 1)" and "emin \<le> int k" and "k < p"
  shows "fp_round p emin x = of_int (round_nearest_even (x * 2 ^ (p - 1 - k))) / 2 ^ (p - 1 - k)"
proof -
  have "0 < \<bar>x\<bar>" using assms(1) zero_less_power [of "2::real" k] by linarith
  then have x: "x \<noteq> 0" by auto
  have "2 powr of_int (int k) \<le> \<bar>x\<bar>" "\<bar>x\<bar> < 2 powr of_int (int k + 1)"
    unfolding two_powr_Suc two_powr_nat using assms(1,2) by simp_all
  then have "\<lfloor>log 2 \<bar>x\<bar>\<rfloor> = int k" by (rule floor_log2_eq)
  then have e: "max \<lfloor>log 2 \<bar>x\<bar>\<rfloor> emin = int k" using assms(3) by simp
  have "int k - int p + 1 = - int (p - 1 - k)" using assms(4) by simp
  then have u: "2 powr of_int (int k - int p + 1) = 1 / (2::real) ^ (p - 1 - k)"
    by (simp only: two_powr_neg)
  show ?thesis
    unfolding fp_round_exp [OF x e] u by simp
qed

lemma fp_round_large:
  assumes "2 ^ k \<le> \<bar>x\<bar>" and "\<bar>x\<bar> < 2 ^ (k + 1)" and "emin \<le> int k" and "0 < p" and "p - 1 \<le> k"
  shows "fp_round p emin x = of_int (round_nearest_even (x / 2 ^ (k - (p - 1)))) * 2 ^ (k - (p - 1))"
proof -
  have "0 < \<bar>x\<bar>" using assms(1) zero_less_power [of "2::real" k] by linarith
  then have x: "x \<noteq> 0" by auto
  have "2 powr of_int (int k) \<le> \<bar>x\<bar>" "\<bar>x\<bar> < 2 powr of_int (int k + 1)"
    unfolding two_powr_Suc two_powr_nat using assms(1,2) by simp_all
  then have "\<lfloor>log 2 \<bar>x\<bar>\<rfloor> = int k" by (rule floor_log2_eq)
  then have e: "max \<lfloor>log 2 \<bar>x\<bar>\<rfloor> emin = int k" using assms(3) by simp
  have "int k - int p + 1 = int (k - (p - 1))" using assms(4,5) by simp
  then have u: "2 powr of_int (int k - int p + 1) = (2::real) ^ (k - (p - 1))"
    by (simp only: two_powr_nat)
  show ?thesis
    unfolding fp_round_exp [OF x e] u by simp
qed


text \<open>Rounding is monotone.\<close>

lemma fp_round_nonneg:
  assumes "0 \<le> x"
  shows "0 \<le> fp_round p emin x"
proof (cases "x = 0")
  case True
  then show ?thesis by simp
next
  case False
  define u where "u = (2::real) powr of_int (max \<lfloor>log 2 \<bar>x\<bar>\<rfloor> emin - int p + 1)"
  have u: "0 < u" by (simp add: u_def)
  have r: "fp_round p emin x = of_int (round_nearest_even (x / u)) * u"
    unfolding u_def using False by (intro fp_round_exp) simp_all
  have "0 \<le> x / u" using assms u by simp
  then have "0 \<le> round_nearest_even (x / u)" using rne_ge [of 0 "x / u"] by simp
  then show ?thesis
    unfolding r using u by simp
qed

lemma fp_round_upper:
  assumes "0 < x" and "0 < p"
  shows "fp_round p emin x \<le> 2 powr of_int (max \<lfloor>log 2 x\<rfloor> emin + 1)"
proof -
  define e where "e = max \<lfloor>log 2 x\<rfloor> emin"
  define u where "u = (2::real) powr of_int (e - int p + 1)"
  have u: "0 < u" by (simp add: u_def)
  have r: "fp_round p emin x = of_int (round_nearest_even (x / u)) * u"
    unfolding u_def using assms(1) by (intro fp_round_exp) (simp_all add: e_def)
  have "x < 2 powr of_int (\<lfloor>log 2 x\<rfloor> + 1)"
    using floor_log_eq_powr_iff [of x 2 "\<lfloor>log 2 x\<rfloor>"] assms(1) by simp
  also have "\<dots> \<le> 2 powr of_int (e + 1)"
    by (intro powr_mono) (simp_all add: e_def)
  finally have "x < 2 powr of_int (e + 1)" .
  moreover have "2 powr of_int (e + 1) = 2 ^ p * u"
  proof -
    have "of_int (e + 1) = real p + of_int (e - int p + 1)" by simp
    then have "2 powr of_int (e + 1) = 2 powr real p * u"
      unfolding u_def by (simp only: powr_add)
    then show ?thesis by (simp add: powr_realpow)
  qed
  ultimately have "x / u \<le> of_int (2 ^ p)" using u by (simp add: field_simps)
  then have "round_nearest_even (x / u) \<le> 2 ^ p" by (rule rne_le)
  then have "of_int (round_nearest_even (x / u)) * u \<le> 2 ^ p * u"
    using u by (simp add: of_int_le_iff [symmetric] del: of_int_le_iff)
  then show ?thesis
    unfolding r e_def [symmetric] \<open>2 powr of_int (e + 1) = 2 ^ p * u\<close> .
qed

lemma fp_round_lower:
  assumes "0 < x" and "0 < p" and "emin \<le> \<lfloor>log 2 x\<rfloor>"
  shows "2 powr of_int \<lfloor>log 2 x\<rfloor> \<le> fp_round p emin x"
proof -
  define e where "e = \<lfloor>log 2 x\<rfloor>"
  define u where "u = (2::real) powr of_int (e - int p + 1)"
  have m: "max \<lfloor>log 2 \<bar>x\<bar>\<rfloor> emin = e" using assms by (simp add: e_def)
  have u: "0 < u" by (simp add: u_def)
  have r: "fp_round p emin x = of_int (round_nearest_even (x / u)) * u"
    unfolding u_def using assms(1) m by (intro fp_round_exp) simp_all
  have le: "2 powr of_int e \<le> x"
    using floor_log_eq_powr_iff [of x 2 "\<lfloor>log 2 x\<rfloor>"] assms(1) by (simp add: e_def)
  have eq: "2 powr of_int e = 2 ^ (p - 1) * u"
  proof -
    have "of_int e = real (p - 1) + of_int (e - int p + 1)" using assms(2) by simp
    then have "2 powr of_int e = 2 powr real (p - 1) * u"
      unfolding u_def by (simp only: powr_add)
    then show ?thesis by (simp add: powr_realpow)
  qed
  have "of_int (2 ^ (p - 1)) \<le> x / u" using le u unfolding eq by (simp add: field_simps)
  then have "2 ^ (p - 1) \<le> round_nearest_even (x / u)" by (rule rne_ge)
  then have "2 ^ (p - 1) * u \<le> of_int (round_nearest_even (x / u)) * u"
    using u by (simp add: of_int_le_iff [symmetric] del: of_int_le_iff)
  then show ?thesis
    unfolding r e_def [symmetric] eq .
qed

lemma fp_round_mono_pos:
  assumes "0 < x" and "x \<le> y" and "0 < p"
  shows "fp_round p emin x \<le> fp_round p emin y"
proof -
  have y: "0 < y" using assms by simp
  define ex where "ex = max \<lfloor>log 2 x\<rfloor> emin"
  define ey where "ey = max \<lfloor>log 2 y\<rfloor> emin"
  have "log 2 x \<le> log 2 y" using assms by simp
  then have fl: "\<lfloor>log 2 x\<rfloor> \<le> \<lfloor>log 2 y\<rfloor>" by (rule floor_mono)
  then have le: "ex \<le> ey" by (simp add: ex_def ey_def)
  show ?thesis
  proof (cases "ex = ey")
    case True
    define u where "u = (2::real) powr of_int (ex - int p + 1)"
    have u: "0 < u" by (simp add: u_def)
    have rx: "fp_round p emin x = of_int (round_nearest_even (x / u)) * u"
      unfolding u_def using assms(1) by (intro fp_round_exp) (simp_all add: ex_def)
    have ry: "fp_round p emin y = of_int (round_nearest_even (y / u)) * u"
      unfolding u_def True using y by (intro fp_round_exp) (simp_all add: ey_def)
    have "x / u \<le> y / u" using assms(2) u by (simp add: divide_right_mono)
    then have "round_nearest_even (x / u) \<le> round_nearest_even (y / u)" by (rule rne_mono)
    then have "of_int (round_nearest_even (x / u)) * u \<le> of_int (round_nearest_even (y / u)) * u"
      using u by simp
    then show ?thesis
      unfolding rx ry .
  next
    case False
    then have lt: "ex < ey" using le by simp
    then have n: "emin \<le> \<lfloor>log 2 y\<rfloor>" "ey = \<lfloor>log 2 y\<rfloor>"
      unfolding ex_def ey_def by linarith+
    have "fp_round p emin x \<le> 2 powr of_int (ex + 1)"
      unfolding ex_def using assms(1,3) by (rule fp_round_upper)
    also have "\<dots> \<le> 2 powr of_int ey"
      using lt by (intro powr_mono) simp_all
    also have "\<dots> \<le> fp_round p emin y"
      unfolding n(2) using y assms(3) n(1) by (rule fp_round_lower)
    finally show ?thesis .
  qed
qed

lemma fp_round_mono:
  assumes "x \<le> y" and "0 < p"
  shows "fp_round p emin x \<le> fp_round p emin y"
proof -
  consider "0 < x" | "x \<le> 0" "0 \<le> y" | "y < 0" by linarith
  then show ?thesis
  proof cases
    case 1
    then show ?thesis using assms by (rule fp_round_mono_pos)
  next
    case 2
    have "0 \<le> fp_round p emin (- x)" using 2(1) by (intro fp_round_nonneg) simp
    then have "fp_round p emin x \<le> 0" by (simp add: fp_round_neg)
    moreover have "0 \<le> fp_round p emin y" using 2(2) by (rule fp_round_nonneg)
    ultimately show ?thesis by simp
  next
    case 3
    then have "0 < - y" "- y \<le> - x" using assms(1) by simp_all
    then have "fp_round p emin (- y) \<le> fp_round p emin (- x)"
      using assms(2) by (rule fp_round_mono_pos)
    then show ?thesis by (simp add: fp_round_neg)
  qed
qed

lemma to_float_mono: "x \<le> y \<Longrightarrow> to_float x \<le> to_float y"
  unfolding to_float_def by (intro fp_round_mono) simp_all

lemma to_double_mono: "x \<le> y \<Longrightarrow> to_double x \<le> to_double y"
  unfolding to_double_def by (intro fp_round_mono) simp_all


text \<open>A rounded number is representable: rounding it again changes nothing.\<close>

lemma fp_round_idem_pos:
  assumes "0 < x" and "0 < p"
  shows "fp_round p emin (fp_round p emin x) = fp_round p emin x"
proof -
  define e where "e = max \<lfloor>log 2 x\<rfloor> emin"
  define u where "u = (2::real) powr of_int (e - int p + 1)"
  define n where "n = round_nearest_even (x / u)"
  have u: "0 < u" by (simp add: u_def)
  have r: "fp_round p emin x = of_int n * u"
    unfolding u_def n_def using assms(1) by (intro fp_round_exp) (simp_all add: e_def)
  have up: "2 powr of_int (e + 1) = 2 ^ p * u"
  proof -
    have "of_int (e + 1) = real p + of_int (e - int p + 1)" by simp
    then have "2 powr of_int (e + 1) = 2 powr real p * u"
      unfolding u_def by (simp only: powr_add)
    then show ?thesis by (simp add: powr_realpow)
  qed
  have n0: "0 \<le> n"
    using fp_round_nonneg [of x p emin] assms(1) u unfolding r
    by (simp add: zero_le_mult_iff)
  have np: "n \<le> 2 ^ p"
  proof -
    have "of_int n * u \<le> 2 ^ p * u"
      using fp_round_upper [OF assms, of emin] unfolding r e_def [symmetric] up .
    then have "real_of_int n \<le> 2 ^ p" using u by simp
    then have "real_of_int n \<le> real_of_int (2 ^ p)" by simp
    then show ?thesis by (simp only: of_int_le_iff)
  qed
  consider "n = 0" | "n = 2 ^ p" | "0 < n" "n < 2 ^ p" using n0 np by linarith
  then show ?thesis
  proof cases
    case 1
    then show ?thesis unfolding r by simp
  next
    case 2
    have v: "of_int n * u = 2 powr of_int (e + 1)" unfolding 2 up by simp
    have nz: "of_int n * u \<noteq> 0" unfolding v by simp
    have "\<lfloor>log 2 \<bar>2 powr of_int (e + 1)\<bar>\<rfloor> = e + 1" by simp
    moreover have "emin \<le> e" by (simp add: e_def)
    ultimately have m: "max \<lfloor>log 2 \<bar>of_int n * u\<bar>\<rfloor> emin = e + 1"
      unfolding v by simp
    have u2: "2 powr of_int (e + 1 - int p + 1) = 2 * u"
    proof -
      have "e + 1 - int p + 1 = (e - int p + 1) + 1" by simp
      then show ?thesis unfolding u_def by (simp only: two_powr_Suc)
    qed
    have "of_int n * u / (2 * u) = of_int (2 ^ (p - 1))"
      using u assms(2) unfolding 2 by (cases p) simp_all
    then have "round_nearest_even (of_int n * u / (2 * u)) = 2 ^ (p - 1)"
      by (simp only: rne_of_int)
    then have "fp_round p emin (of_int n * u) = of_int (2 ^ (p - 1)) * (2 * u)"
      unfolding fp_round_exp [OF nz m] u2 by simp
    also have "\<dots> = of_int n * u"
      using assms(2) unfolding 2 by (cases p) simp_all
    finally show ?thesis unfolding r .
  next
    case 3
    have pos: "0 < of_int n * u" using 3(1) u by simp
    have "of_int n * u < 2 ^ p * u"
    proof -
      have "real_of_int n < real_of_int (2 ^ p)" using 3(2) by (simp only: of_int_less_iff)
      then show ?thesis using u by simp
    qed
    then have lt: "of_int n * u < 2 powr of_int (e + 1)" unfolding up .
    have fl: "\<lfloor>log 2 (of_int n * u)\<rfloor> \<le> e"
    proof -
      have "log 2 (of_int n * u) < of_int (e + 1)"
        using pos lt by (subst log_less_iff) simp_all
      then have "\<lfloor>log 2 (of_int n * u)\<rfloor> < e + 1" by (simp only: floor_less_iff)
      then show ?thesis by simp
    qed
    have m: "max \<lfloor>log 2 \<bar>of_int n * u\<bar>\<rfloor> emin = e"
    proof (cases "emin \<le> \<lfloor>log 2 x\<rfloor>")
      case True
      then have ee: "e = \<lfloor>log 2 x\<rfloor>" by (simp add: e_def)
      have "2 powr of_int e \<le> of_int n * u"
        using fp_round_lower [OF assms True] unfolding r ee .
      then have "of_int e \<le> log 2 (of_int n * u)"
        using pos by (subst le_log_iff) simp_all
      then have "e \<le> \<lfloor>log 2 (of_int n * u)\<rfloor>" by (simp only: le_floor_iff)
      with fl have "\<lfloor>log 2 (of_int n * u)\<rfloor> = e" by simp
      moreover have "emin \<le> e" by (simp add: e_def)
      ultimately show ?thesis using pos by simp
    next
      case False
      then have "e = emin" by (simp add: e_def)
      then show ?thesis using fl pos by simp
    qed
    have nz: "of_int n * u \<noteq> 0" using pos by linarith
    have "fp_round p emin (of_int n * u) = of_int n * u"
      unfolding fp_round_exp [OF nz m] u_def [symmetric] using u by simp
    then show ?thesis unfolding r .
  qed
qed

lemma fp_round_idem:
  assumes "0 < p"
  shows "fp_round p emin (fp_round p emin x) = fp_round p emin x"
proof -
  consider "0 < x" | "x = 0" | "0 < - x" by linarith
  then show ?thesis
  proof cases
    case 1
    then show ?thesis using assms by (rule fp_round_idem_pos)
  next
    case 2
    then show ?thesis by simp
  next
    case 3
    then have "fp_round p emin (fp_round p emin (- x)) = fp_round p emin (- x)"
      using assms by (rule fp_round_idem_pos)
    then show ?thesis by (simp add: fp_round_neg)
  qed
qed

lemma to_float_idem [simp]: "to_float (to_float x) = to_float x"
  unfolding to_float_def by (rule fp_round_idem) simp

lemma to_double_idem [simp]: "to_double (to_double x) = to_double x"
  unfolding to_double_def by (rule fp_round_idem) simp

text \<open>Integers of at most \<open>p\<close> bits are numbers of a format of \<open>p\<close> significant bits.\<close>

lemma fp_round_int:
  assumes "\<bar>n\<bar> < 2 ^ p" and "emin \<le> 0" and "0 < p"
  shows "fp_round p emin (of_int n) = of_int n"
proof (cases "n = 0")
  case True
  then show ?thesis by simp
next
  case False
  define k where "k = \<lfloor>log 2 \<bar>real_of_int n\<bar>\<rfloor>"
  have pos: "0 < \<bar>real_of_int n\<bar>" using False by simp
  have "1 \<le> \<bar>n\<bar>" using False by simp
  then have one: "1 \<le> \<bar>real_of_int n\<bar>" by (simp flip: of_int_abs)
  have "0 \<le> log 2 \<bar>real_of_int n\<bar>" using one by simp
  then have k0: "0 \<le> k" by (simp add: k_def)
  have "real_of_int \<bar>n\<bar> < real_of_int (2 ^ p)"
    using assms(1) by (simp only: of_int_less_iff)
  then have "\<bar>real_of_int n\<bar> < 2 ^ p" by simp
  then have "log 2 \<bar>real_of_int n\<bar> < real p"
    using pos by (subst log_less_iff) (simp_all add: powr_realpow)
  then have kp: "k < int p" unfolding k_def by (simp add: floor_less_iff)
  define j where "j = nat (int p - 1 - k)"
  have j: "k - int p + 1 = - int j" using kp by (simp add: j_def)
  have "emin \<le> k" using k0 assms(2) by linarith
  then have m: "max \<lfloor>log 2 \<bar>real_of_int n\<bar>\<rfloor> emin = k"
    unfolding k_def by (rule max_absorb1)
  have nz: "real_of_int n \<noteq> 0" using False by simp
  have "real_of_int n / (1 / 2 ^ j) = of_int (n * 2 ^ j)" by simp
  then have "round_nearest_even (real_of_int n / (1 / 2 ^ j)) = n * 2 ^ j"
    by (simp only: rne_of_int)
  then show ?thesis
    unfolding fp_round_exp [OF nz m] j two_powr_neg by simp
qed

lemma to_float_int: "\<bar>n\<bar> < 2 ^ 24 \<Longrightarrow> to_float (of_int n) = of_int n"
  unfolding to_float_def by (rule fp_round_int) simp_all

lemma to_float_1 [simp]: "to_float 1 = 1"
  using to_float_int [of 1] by simp

lemma to_double_1 [simp]: "to_double 1 = 1"
  using fp_round_int [of 1 53 "- 1022"] by (simp add: to_double_def)

lemma to_float_0 [simp]: "to_float 0 = 0"
  by (simp add: to_float_def)

lemma to_double_0 [simp]: "to_double 0 = 0"
  by (simp add: to_double_def)

text \<open>The rounding of numbers below 1, and the smoothing of line 128.\<close>

lemma to_double_small:
  assumes "1 \<le> \<bar>x\<bar> * 2 ^ j" and "\<bar>x\<bar> * 2 ^ j < 2" and "j \<le> 1022"
  shows "to_double x = of_int (round_nearest_even (x * 2 ^ (j + 52))) / 2 ^ (j + 52)"
  unfolding to_double_def using fp_round_small [OF assms(1,2), of "- 1022" 53] assms(3)
  by (simp add: add.commute)

lemma to_float_small:
  assumes "1 \<le> \<bar>x\<bar> * 2 ^ j" and "\<bar>x\<bar> * 2 ^ j < 2" and "j \<le> 126"
  shows "to_float x = of_int (round_nearest_even (x * 2 ^ (j + 23))) / 2 ^ (j + 23)"
  unfolding to_float_def using fp_round_small [OF assms(1,2), of "- 126" 24] assms(3)
  by (simp add: add.commute)

lemma double_06: "to_double 0.6 = 5404319552844595 / 2 ^ 53"
  by (subst to_double_small [where j = 1]) (simp_all add: round_nearest_even_def)

lemma double_04: "to_double 0.4 = 3602879701896397 / 2 ^ 53"
  by (subst to_double_small [where j = 2]) (simp_all add: round_nearest_even_def)

lemma smooth_coef_upper:
  assumes "r \<le> 1" and "t \<le> 1"
  shows "smooth_coef r t \<le> 1"
proof -
  have a: "to_double 0.6 * r \<le> to_double 0.6" and b: "to_double 0.4 * t \<le> to_double 0.4"
    using assms unfolding double_06 double_04 by simp_all
  have "to_double (to_double 0.6 * r) \<le> to_double (to_double 0.6)"
    using a by (rule to_double_mono)
  moreover have "to_double (to_double 0.4 * t) \<le> to_double (to_double 0.4)"
    using b by (rule to_double_mono)
  ultimately have "to_double (to_double 0.6 * r) + to_double (to_double 0.4 * t) \<le>
      to_double 0.6 + to_double 0.4"
    by simp
  also have "\<dots> = 1" unfolding double_06 double_04 by simp
  finally have "to_double (to_double (to_double 0.6 * r) + to_double (to_double 0.4 * t)) \<le> to_double 1"
    by (rule to_double_mono)
  then have "smooth_coef r t \<le> to_float 1"
    unfolding smooth_coef_def by (intro to_float_mono) simp
  then show ?thesis by simp
qed

lemma smooth_coef_lower:
  assumes "- 127 / 128 \<le> r" and "- 127 / 128 \<le> t"
  shows "- 127 / 128 \<le> smooth_coef r t"
proof -
  have d1: "to_double (to_double 0.6 * (- 127 / 128)) = - 5362098306337997 / 2 ^ 53"
    unfolding double_06
    by (subst to_double_small [where j = 1]) (simp_all add: round_nearest_even_def)
  have d2: "to_double (to_double 0.4 * (- 127 / 128)) = - 7149464408450663 / 2 ^ 54"
    unfolding double_04
    by (subst to_double_small [where j = 2]) (simp_all add: round_nearest_even_def)
  have s: "to_double (- 5362098306337997 / 2 ^ 53 + - 7149464408450663 / 2 ^ 54) = - 127 / 128"
    by (subst to_double_small [where j = 1]) (simp_all add: round_nearest_even_def)
  have f: "to_float (- 127 / 128) = - 127 / 128"
    by (subst to_float_small [where j = 1]) (simp_all add: round_nearest_even_def)
  have a: "to_double 0.6 * (- 127 / 128) \<le> to_double 0.6 * r"
    and b: "to_double 0.4 * (- 127 / 128) \<le> to_double 0.4 * t"
    using assms unfolding double_06 double_04 by simp_all
  have "to_double (to_double 0.6 * (- 127 / 128)) \<le> to_double (to_double 0.6 * r)"
    using a by (rule to_double_mono)
  moreover have "to_double (to_double 0.4 * (- 127 / 128)) \<le> to_double (to_double 0.4 * t)"
    using b by (rule to_double_mono)
  ultimately have "- 5362098306337997 / 2 ^ 53 + - 7149464408450663 / 2 ^ 54 \<le>
      to_double (to_double 0.6 * r) + to_double (to_double 0.4 * t)"
    unfolding d1 d2 by simp
  then have "to_double (- 5362098306337997 / 2 ^ 53 + - 7149464408450663 / 2 ^ 54) \<le>
      to_double (to_double (to_double 0.6 * r) + to_double (to_double 0.4 * t))"
    by (rule to_double_mono)
  then have "to_float (- 127 / 128) \<le> smooth_coef r t"
    unfolding s smooth_coef_def by (rule to_float_mono)
  then show ?thesis unfolding f .
qed

lemma smooth_coef_example: "smooth_coef (1 / 2) (1 / 4) = 13421773 / 33554432"
proof -
  have a: "to_double (to_double 0.6 * (1 / 2)) = 5404319552844595 / 2 ^ 54"
    unfolding double_06
    by (subst to_double_small [where j = 2]) (simp_all add: round_nearest_even_def)
  have b: "to_double (to_double 0.4 * (1 / 4)) = 3602879701896397 / 2 ^ 55"
    unfolding double_04
    by (subst to_double_small [where j = 4]) (simp_all add: round_nearest_even_def)
  have c: "to_double (5404319552844595 / 2 ^ 54 + 3602879701896397 / 2 ^ 55) =
      3602879701896397 / 2 ^ 53"
    by (subst to_double_small [where j = 2]) (simp_all add: round_nearest_even_def)
  have d: "to_float (3602879701896397 / 2 ^ 53) = 13421773 / 33554432"
    by (subst to_float_small [where j = 2]) (simp_all add: round_nearest_even_def)
  show ?thesis unfolding smooth_coef_def a b c d ..
qed

text \<open>The values of the type \<open>float32\<close>.\<close>

lemma Rep_f32 [simp]: "Rep_float32 (f32 x) = to_float x"
  unfolding f32_def by (rule Abs_float32_inverse) simp

lemma f32_Rep [simp]: "f32 (Rep_float32 a) = a"
proof -
  obtain x where "Rep_float32 a = to_float x" using Rep_float32 [of a] by auto
  then have "to_float (Rep_float32 a) = Rep_float32 a" by simp
  then show ?thesis unfolding f32_def by (simp add: Rep_float32_inverse)
qed

lemma Rep_float32_plus: "Rep_float32 (a + b) = to_float (Rep_float32 a + Rep_float32 b)"
  unfolding plus_float32_def by (rule Abs_float32_inverse) simp

lemma Rep_float32_times: "Rep_float32 (a * b) = to_float (Rep_float32 a * Rep_float32 b)"
  unfolding times_float32_def by (rule Abs_float32_inverse) simp

subsection \<open>The loops of the decoder in closed form\<close>

lemma fold_nth_update:
  "k \<le> length xs \<Longrightarrow>
   fold (\<lambda>i ys. ys[i := g i (ys ! i)]) [0..<k] xs = map (\<lambda>i. g i (xs ! i)) [0..<k] @ drop k xs"
proof (induction k)
  case 0
  then show ?case by simp
next
  case (Suc k)
  then have k: "k < length xs" by simp
  have "drop k xs = xs ! k # drop (Suc k) xs"
    using k by (simp add: Cons_nth_drop_Suc)
  then show ?case using Suc k
    by (simp add: nth_append list_update_append)
qed

lemma fold_const_update:
  "k \<le> length xs \<Longrightarrow>
   fold (\<lambda>i ys. ys[i := f i]) [0..<k] xs = map f [0..<k] @ drop k xs"
  using fold_nth_update [of k xs "\<lambda>i y. f i"] by simp

lemma sid_fold_fields:
  "fold (\<lambda>i q. q\<lparr>target_refl_coef := (target_refl_coef q)[i := f i]\<rparr>) is p =
   p\<lparr>target_refl_coef := fold (\<lambda>i ys. ys[i := f i]) is (target_refl_coef p)\<rparr>"
  by (induction "is" arbitrary: p) simp_all

lemma smooth_fold_fields:
  "fold (\<lambda>i q. q\<lparr>refl_coef := (refl_coef q)[i := smooth_coef (refl_coef q ! i) (target_refl_coef q ! i)]\<rparr>) is p =
   p\<lparr>refl_coef := fold (\<lambda>i ys. ys[i := smooth_coef (ys ! i) (target_refl_coef p ! i)]) is (refl_coef p)\<rparr>"
  by (induction "is" arbitrary: p) simp_all

lemma sid_update_Nil: "sid_update [] p = p"
  by (simp add: sid_update_def)

lemma sid_update_closed:
  assumes "pkt \<noteq> []"
  shows "sid_update pkt p = p\<lparr>target_energy := sid_energy pkt,
            target_refl_coef := sid_coefs pkt (order p) @ drop (order p) (target_refl_coef p)\<rparr>"
  using assms
  by (simp add: sid_update_def Let_def sid_fold_fields fold_const_update memset0_f_def
      sid_energy_def sid_coefs_def min_def)

lemma fold_smooth:
  "k \<le> length xs \<Longrightarrow>
   fold (\<lambda>i ys. ys[i := smooth_coef (ys ! i) (t ! i)]) [0..<k] xs =
   map (\<lambda>i. smooth_coef (xs ! i) (t ! i)) [0..<k] @ drop k xs"
  using fold_nth_update [of k xs "\<lambda>i y. smooth_coef y (t ! i)"] by simp

lemma smooth_update_closed:
  assumes "order p \<le> length (refl_coef p)"
  shows "smooth_update p =
    (if inited p \<noteq> 0 then
       p\<lparr>energy := energy p sdiv 2 + target_energy p sdiv 2,
         refl_coef := map (\<lambda>i. smooth_coef (refl_coef p ! i) (target_refl_coef p ! i)) [0..<order p]
                        @ drop (order p) (refl_coef p)\<rparr>
     else p\<lparr>energy := target_energy p,
            refl_coef := take (order p) (target_refl_coef p) @ drop (order p) (refl_coef p),
            inited := 1\<rparr>)"
  using assms
  by (simp add: smooth_update_def Let_def smooth_fold_fields fold_smooth memcpy_f_def)

lemma fold_nth_foldl:
  "n \<le> length xs \<Longrightarrow> fold (\<lambda>i e. f e (xs ! i)) [0..<n] a = foldl f a (take n xs)"
  by (induction n) (simp_all add: take_Suc_conv_app_nth)

lemma prediction_gain_foldl:
  "order p \<le> length (refl_coef p) \<Longrightarrow>
   prediction_gain p = foldl gain_step 1 (take (order p) (refl_coef p))"
  by (simp add: prediction_gain_def fold_nth_foldl)

lemma excitation_fold:
  "i + n \<le> length (excitation p) \<Longrightarrow>
   fold (\<lambda>i q. case get (lfg q) of (x, g) \<Rightarrow>
                   let r = centre16 x
                   in q\<lparr>lfg := g,
                        excitation := (excitation q)[i := to_float (scaling * to_float (real_of_int r))]\<rparr>)
       [i..<i + n] p =
   p\<lparr>lfg := lfg_skip get (lfg p) n,
     excitation := take i (excitation p)
        @ map (\<lambda>x. to_float (scaling * to_float (real_of_int (centre16 x)))) (lfg_draws get (lfg p) n)
        @ drop (i + n) (excitation p)\<rparr>"
proof (induction n arbitrary: i p)
  case 0
  then show ?case by simp
next
  case (Suc n)
  obtain x g where xg: "get (lfg p) = (x, g)" by (cases "get (lfg p)")
  let ?q = "p\<lparr>lfg := g,
      excitation := (excitation p)[i := to_float (scaling * to_float (real_of_int (centre16 x)))]\<rparr>"
  have i: "i < length (excitation p)" using Suc.prems by simp
  have "[i..<i + Suc n] = i # [Suc i..<Suc i + n]"
    by (simp add: upt_conv_Cons)
  moreover have "Suc i + n \<le> length (excitation ?q)" using Suc.prems by simp
  ultimately show ?case
    using Suc.IH [of "Suc i" ?q] xg i
    by (simp add: Let_def take_Suc_conv_app_nth)
qed

lemma generate_excitation_closed:
  assumes "n \<le> length (excitation p)"
  shows "generate_excitation get scaling n p =
     p\<lparr>lfg := lfg_skip get (lfg p) n,
       excitation := map (\<lambda>x. to_float (scaling * to_float (real_of_int (centre16 x)))) (lfg_draws get (lfg p) n)
          @ drop n (excitation p)\<rparr>"
  using excitation_fold [where i = 0 and n = n and p = p and get = get and scaling = scaling] assms
  by (simp add: generate_excitation_def)

lemma length_lfg_draws: "length (lfg_draws get g n) = n"
  by (induction n arbitrary: g) (simp_all split: prod.splits)

lemma celp_length:
  "length (celp_lp_synthesis_filterf b off c inp n L) = length b"
  unfolding celp_lp_synthesis_filterf_def
  by (induction n) simp_all

lemma celp_take:
  "take off (celp_lp_synthesis_filterf b off c inp n L) = take off b"
  unfolding celp_lp_synthesis_filterf_def
  by (induction n) simp_all

subsection \<open>The two buffers of make\_lpc\_coefs\<close>

lemma arr_wr_same: "arr (wr st a i v) a = (arr st a)[i := v]"
  by (cases a) (simp_all add: arr_def wr_def)

lemma arr_wr_other: "a \<noteq> b \<Longrightarrow> arr (wr st a i v) b = arr st b"
  by (cases a; cases b) (simp_all add: arr_def wr_def)

lemma lpc_inner_fold:
  assumes "nxt \<noteq> cur" "j \<le> length (arr st nxt)"
  shows "arr (fold (\<lambda>i s. wr s nxt i (rd s cur i + k * rd s cur (m - i - 1))) [0..<j] st) cur = arr st cur
       \<and> arr (fold (\<lambda>i s. wr s nxt i (rd s cur i + k * rd s cur (m - i - 1))) [0..<j] st) nxt =
         map (\<lambda>i. arr st cur ! i + k * arr st cur ! (m - i - 1)) [0..<j] @ drop j (arr st nxt)"
  using assms(2)
proof (induction j)
  case 0
  then show ?case by simp
next
  case (Suc j)
  then have j: "j < length (arr st nxt)" by simp
  have d: "drop j (arr st nxt) = arr st nxt ! j # drop (Suc j) (arr st nxt)"
    using j by (simp add: Cons_nth_drop_Suc)
  show ?case using Suc j assms(1)
    by (simp add: arr_wr_same arr_wr_other rd_def d list_update_append)
qed

lemma lpc_inner_arr:
  assumes "nxt \<noteq> cur" "m \<le> length (arr st nxt)"
  shows "arr (lpc_inner refls m nxt cur st) cur = arr st cur"
    and "arr (lpc_inner refls m nxt cur st) nxt =
         map (\<lambda>i. arr st cur ! i + refls ! m * arr st cur ! (m - i - 1)) [0..<m] @ drop m (arr st nxt)"
  using lpc_inner_fold [OF assms, of "refls ! m" m] by (simp_all add: lpc_inner_def)

lemma length_step_up_recursion: "length (foldl step_up acc xs) = length acc + length xs"
  by (induction xs arbitrary: acc) (simp_all add: step_up_def)

lemma step_up_take:
  assumes "m \<le> length xs"
  shows "map (\<lambda>i. xs ! i + k * xs ! (m - i - 1)) [0..<m] @ [k] = step_up (take m xs) k"
  using assms by (simp add: step_up_def)

lemma step_up_recursion_Suc:
  "m < length refls \<Longrightarrow>
   step_up_recursion (take (Suc m) refls) = step_up (step_up_recursion (take m refls)) (refls ! m)"
  by (simp add: step_up_recursion_def take_Suc_conv_app_nth)

lemma lpc_loop_inv:
  assumes "n \<le> length refls" "n \<le> length lpc" "n \<le> length b"
  shows "case lpc_loop refls n (\<lparr>buf_mem = b, lpc_mem = lpc\<rparr>, BUF, LPC) of
           (st, nxt, cur) \<Rightarrow>
             nxt \<noteq> cur \<and> length (buf_mem st) = length b \<and> length (lpc_mem st) = length lpc \<and>
             take n (arr st cur) = step_up_recursion (take n refls) \<and>
             drop n (lpc_mem st) = drop n lpc"
  using assms
proof (induction n)
  case 0
  then show ?case by (simp add: lpc_loop_def step_up_recursion_def)
next
  case (Suc n)
  obtain st nxt cur where l: "lpc_loop refls n (\<lparr>buf_mem = b, lpc_mem = lpc\<rparr>, BUF, LPC) = (st, nxt, cur)"
    by (cases "lpc_loop refls n (\<lparr>buf_mem = b, lpc_mem = lpc\<rparr>, BUF, LPC)") auto
  with Suc have inv: "nxt \<noteq> cur" "length (buf_mem st) = length b" "length (lpc_mem st) = length lpc"
      "take n (arr st cur) = step_up_recursion (take n refls)" "drop n (lpc_mem st) = drop n lpc"
    by simp_all
  have len: "length (arr st a) = (case a of BUF \<Rightarrow> length b | LPC \<Rightarrow> length lpc)" for a
    using inv by (cases a) (simp_all add: arr_def)
  have n: "n < length (arr st nxt)" "n \<le> length (arr st cur)" "n < length refls"
    using Suc.prems by (cases nxt; cases cur; simp add: len)+
  let ?st1 = "wr st nxt n (refls ! n)"
  let ?st2 = "lpc_inner refls n nxt cur ?st1"
  have step: "lpc_loop refls (Suc n) (\<lparr>buf_mem = b, lpc_mem = lpc\<rparr>, BUF, LPC) = (?st2, cur, nxt)"
    using l by (simp add: lpc_loop_def lpc_round_def)
  have n1: "n \<le> length (arr ?st1 nxt)" using n by (simp add: arr_wr_same)
  have cur2: "arr ?st2 cur = arr st cur"
    using lpc_inner_arr(1) [OF inv(1) n1] inv(1) by (simp add: arr_wr_other)
  have nxt2: "arr ?st2 nxt =
      map (\<lambda>i. arr st cur ! i + refls ! n * arr st cur ! (n - i - 1)) [0..<n] @ drop n ((arr st nxt)[n := refls ! n])"
    using lpc_inner_arr(2) [OF inv(1) n1] inv(1) by (simp add: arr_wr_same arr_wr_other)
  have "drop n ((arr st nxt)[n := refls ! n]) = refls ! n # drop (Suc n) (arr st nxt)"
    using n(1) by (simp add: Cons_nth_drop_Suc [symmetric] drop_update_swap [symmetric] upd_conv_take_nth_drop)
  with nxt2 have nxt3: "arr ?st2 nxt = step_up (take n (arr st cur)) (refls ! n) @ drop (Suc n) (arr st nxt)"
    using step_up_take [OF n(2), of "refls ! n"] by simp
  have tk: "take (Suc n) (arr ?st2 nxt) = step_up_recursion (take (Suc n) refls)"
    unfolding nxt3 inv(4) step_up_recursion_Suc [OF n(3)]
    using n(3) by (simp add: step_up_def step_up_recursion_def length_step_up_recursion min_def)
  have lens: "length (arr ?st2 a) = length (arr st a)" for a
  proof (cases "a = nxt")
    case True
    then show ?thesis using n(1) n(3) unfolding True nxt3
      by (simp add: step_up_def inv(4) step_up_recursion_def length_step_up_recursion)
  next
    case False
    then have "a = cur" using inv(1) by (cases a; cases nxt; cases cur) auto
    then show ?thesis using cur2 by simp
  qed
  have l1: "length (buf_mem ?st2) = length b" using lens [of BUF] inv(2) by (simp add: arr_def)
  have l2: "length (lpc_mem ?st2) = length lpc" using lens [of LPC] inv(3) by (simp add: arr_def)
  have dr: "drop (Suc n) (lpc_mem ?st2) = drop (Suc n) lpc"
  proof (cases nxt)
    case BUF
    then have "cur = LPC" using inv(1) by (cases cur) auto
    then have "lpc_mem ?st2 = lpc_mem st" using cur2 by (simp add: arr_def)
    moreover have "drop (Suc n) (lpc_mem st) = drop (Suc n) lpc"
      using inv(5) by (metis drop_drop plus_1_eq_Suc)
    ultimately show ?thesis by simp
  next
    case LPC
    then have "lpc_mem ?st2 = arr ?st2 nxt" by (simp add: arr_def)
    moreover have "length (step_up (take n (arr st cur)) (refls ! n)) = Suc n"
      using n(2) by (simp add: step_up_def)
    moreover have "drop (Suc n) (arr st nxt) = drop (Suc n) lpc"
      using inv(5) LPC by (metis arr_def coef_ptr.simps(4) drop_drop plus_1_eq_Suc)
    ultimately show ?thesis unfolding nxt3 by simp
  qed
  show ?case unfolding step using inv(1) l1 l2 tk dr by auto
qed

lemma make_lpc_coefs_closed:
  fixes lpc refls :: "'a::{plus,times} list"
  assumes "ord \<le> 100" "ord \<le> length lpc" "ord \<le> length refls"
  shows "make_lpc_coefs buf0 lpc refls ord = step_up_recursion (take ord refls) @ drop ord lpc"
proof -
  obtain st nxt cur where
    l: "lpc_loop refls ord (\<lparr>buf_mem = map buf0 [0..<100], lpc_mem = lpc\<rparr>, BUF, LPC) = (st, nxt, cur)"
    by (cases "lpc_loop refls ord (\<lparr>buf_mem = map buf0 [0..<100], lpc_mem = lpc\<rparr>, BUF, LPC)") auto
  have "ord \<le> length (map buf0 [0..<100])" using assms(1) by simp
  from lpc_loop_inv [OF assms(3) assms(2) this] l
  have inv: "length (lpc_mem st) = length lpc"
      "take ord (arr st cur) = step_up_recursion (take ord refls)" "drop ord (lpc_mem st) = drop ord lpc"
    by simp_all
  show ?thesis
  proof (cases cur)
    case BUF
    then show ?thesis using l inv by (simp add: make_lpc_coefs_def)
  next
    case LPC
    then have "lpc_mem st = take ord (arr st cur) @ drop ord (lpc_mem st)"
      by (simp add: arr_def)
    then show ?thesis using l inv LPC by (simp add: make_lpc_coefs_def)
  qed
qed

subsection \<open>One call of cng\_decode\_frame\<close>

lemma sid_update_order: "order (sid_update pkt p) = order p"
  by (cases "pkt = []") (simp_all add: sid_update_Nil sid_update_closed)

lemma length_sid_coefs: "length (sid_coefs pkt ord) = ord"
  by (simp add: sid_coefs_def)

lemma sid_update_other:
  "refl_coef (sid_update pkt p) = refl_coef p" "lpc_coef (sid_update pkt p) = lpc_coef p"
  "energy (sid_update pkt p) = energy p" "inited (sid_update pkt p) = inited p"
  "filter_out (sid_update pkt p) = filter_out p" "excitation (sid_update pkt p) = excitation p"
  "lfg (sid_update pkt p) = lfg p"
  by (cases "pkt = []"; simp add: sid_update_Nil sid_update_closed)+

lemma sid_update_length:
  "length (target_refl_coef p) = order p \<Longrightarrow> length (target_refl_coef (sid_update pkt p)) = order p"
  by (cases "pkt = []") (simp_all add: sid_update_Nil sid_update_closed length_sid_coefs)

text \<open>The context after the smoothing, in terms of the context before the call.\<close>

lemma smooth_sid_fields:
  assumes "length (refl_coef p) = order p" "length (target_refl_coef p) = order p"
  shows "order (smooth_update (sid_update pkt p)) = order p"
    and "target_energy (smooth_update (sid_update pkt p)) = target_energy (sid_update pkt p)"
    and "target_refl_coef (smooth_update (sid_update pkt p)) = target_refl_coef (sid_update pkt p)"
    and "lpc_coef (smooth_update (sid_update pkt p)) = lpc_coef p"
    and "filter_out (smooth_update (sid_update pkt p)) = filter_out p"
    and "excitation (smooth_update (sid_update pkt p)) = excitation p"
    and "lfg (smooth_update (sid_update pkt p)) = lfg p"
    and "inited (smooth_update (sid_update pkt p)) \<noteq> 0"
    and "length (refl_coef (smooth_update (sid_update pkt p))) = order p"
  using assms sid_update_length [of p pkt]
  by (simp_all add: smooth_update_closed sid_update_order sid_update_other)

lemma synthesize_closed:
  assumes "length (refl_coef p) = order p" "length (target_refl_coef p) = order p"
    and "fs \<le> length (excitation p)"
  shows "synthesize get buf0 fs pkt p =
    (let q = smooth_update (sid_update pkt p);
         lpc = map Rep_float32 (make_lpc_coefs (\<lambda>i. f32 (buf0 i)) (map f32 (lpc_coef p))
                 (map f32 (refl_coef q)) (order p));
         scaling = noise_scaling (prediction_gain q) (energy q);
         exc = map (\<lambda>x. to_float (scaling * to_float (real_of_int (centre16 x)))) (lfg_draws get (lfg p) fs)
                 @ drop fs (excitation p)
     in q\<lparr>lpc_coef := lpc, lfg := lfg_skip get (lfg p) fs, excitation := exc,
          filter_out := celp_lp_synthesis_filterf (filter_out p) (order p) lpc exc fs (order p)\<rparr>)"
proof -
  let ?q = "smooth_update (sid_update pkt p)"
  have pg: "prediction_gain (?q\<lparr>lpc_coef := l\<rparr>) = prediction_gain ?q" for l
    by (simp add: prediction_gain_def)
  have "fs \<le> length (excitation (?q\<lparr>lpc_coef := l\<rparr>))" for l
    using assms by (simp add: smooth_sid_fields)
  note ge = generate_excitation_closed [OF this]
  show ?thesis
    unfolding synthesize_def Let_def ge pg
    using assms(1,2) by (simp add: smooth_sid_fields)
qed

lemma length_step_up_recursion_order: "length (step_up_recursion xs) = length xs"
  by (simp add: step_up_recursion_def length_step_up_recursion)

lemma decode_snd:
  "snd (cng_decode_frame get buf0 avctx pkt r d) =
   avctx\<lparr>priv_data :=
     (let P = synthesize get buf0 (frame_size avctx) pkt (priv_data avctx)
      in if r < 0 then P
         else P\<lparr>filter_out := memcpy_f (filter_out P) (filter_out P) (frame_size avctx) (order P)\<rparr>)\<rparr>"
  by (simp add: cng_decode_frame_def Let_def)

text \<open>The context after a call, in terms of the context before it.\<close>

lemma decode_priv:
  assumes "cng_wf avctx"
  shows "priv_data (snd (cng_decode_frame get buf0 avctx pkt r d)) =
    (let p = priv_data avctx; fs = frame_size avctx;
         q = smooth_update (sid_update pkt p);
         lpc = map Rep_float32 (step_up_recursion (map f32 (refl_coef q)));
         scaling = noise_scaling (prediction_gain q) (energy q);
         exc = map (\<lambda>x. to_float (scaling * to_float (real_of_int (centre16 x)))) (lfg_draws get (lfg p) fs);
         F = celp_lp_synthesis_filterf (filter_out p) (order p) lpc exc fs (order p)
     in q\<lparr>lpc_coef := lpc, lfg := lfg_skip get (lfg p) fs, excitation := exc,
          filter_out := (if r < 0 then F else take (order p) (drop fs F) @ drop (order p) F)\<rparr>)"
proof -
  let ?p = "priv_data avctx"
  let ?q = "smooth_update (sid_update pkt ?p)"
  have wf: "length (refl_coef ?p) = order ?p" "length (target_refl_coef ?p) = order ?p"
    "length (lpc_coef ?p) = order ?p" "length (excitation ?p) = frame_size avctx"
    "order ?p \<le> 100"
    using assms by (simp_all add: cng_wf_def Let_def)
  have lq: "length (refl_coef ?q) = order ?p"
    using wf by (simp add: smooth_sid_fields)
  have lpc: "make_lpc_coefs (\<lambda>i. f32 (buf0 i)) (map f32 (lpc_coef ?p)) (map f32 (refl_coef ?q)) (order ?p) =
      step_up_recursion (map f32 (refl_coef ?q))"
    using make_lpc_coefs_closed [of "order ?p" "map f32 (lpc_coef ?p)" "map f32 (refl_coef ?q)"
        "\<lambda>i. f32 (buf0 i)"] wf lq by simp
  have syn: "synthesize get buf0 (frame_size avctx) pkt ?p = 
    (let q = ?q;
         lpc = map Rep_float32 (step_up_recursion (map f32 (refl_coef q)));
         scaling = noise_scaling (prediction_gain q) (energy q);
         exc = map (\<lambda>x. to_float (scaling * to_float (real_of_int (centre16 x)))) (lfg_draws get (lfg ?p) (frame_size avctx))
     in q\<lparr>lpc_coef := lpc, lfg := lfg_skip get (lfg ?p) (frame_size avctx), excitation := exc,
          filter_out := celp_lp_synthesis_filterf (filter_out ?p) (order ?p) lpc exc (frame_size avctx) (order ?p)\<rparr>)"
    using synthesize_closed [of ?p "frame_size avctx" get buf0 pkt] wf
    by (simp add: Let_def lpc)
  show ?thesis
    unfolding decode_snd syn
    using wf by (simp add: Let_def memcpy_f_def smooth_sid_fields)
qed

lemma decode_avctx:
  "frame_size (snd (cng_decode_frame get buf0 avctx pkt r d)) = frame_size avctx"
  "channels (snd (cng_decode_frame get buf0 avctx pkt r d)) = channels avctx"
  "sample_rate (snd (cng_decode_frame get buf0 avctx pkt r d)) = sample_rate avctx"
  by (simp_all add: decode_snd)

lemma decode_wf:
  assumes "cng_wf avctx"
  shows "cng_wf (snd (cng_decode_frame get buf0 avctx pkt r d))"
proof -
  let ?p = "priv_data avctx"
  have wf: "length (refl_coef ?p) = order ?p" "length (target_refl_coef ?p) = order ?p"
    "length (lpc_coef ?p) = order ?p" "length (excitation ?p) = frame_size avctx"
    "length (filter_out ?p) = frame_size avctx + order ?p"
    "order ?p \<le> 100" "order ?p \<le> frame_size avctx"
    using assms by (simp_all add: cng_wf_def Let_def)
  show ?thesis
    unfolding cng_wf_def decode_priv [OF assms] decode_avctx
    using wf
    by (simp add: Let_def smooth_sid_fields sid_update_length length_step_up_recursion_order
        length_lfg_draws celp_length)
qed

lemma buf_out_fold:
  "n \<le> length d \<Longrightarrow>
   fold (\<lambda>i out. out[i := c (F ! (i + k))]) [0..<n] d = map (\<lambda>i. c (F ! (i + k))) [0..<n] @ drop n d"
  using fold_const_update [of n d "\<lambda>i. c (F ! (i + k))"] by simp

lemma decode_fst:
  "fst (cng_decode_frame get buf0 avctx pkt r d) =
     (if r < 0 then Inl r
      else Inr (int (length pkt),
             \<lparr>nb_samples = frame_size avctx,
              data0 = fold (\<lambda>i out. out[i := c_float_to_int16
                   (filter_out (synthesize get buf0 (frame_size avctx) pkt (priv_data avctx)) !
                      (i + order (synthesize get buf0 (frame_size avctx) pkt (priv_data avctx))))])
                 [0..<frame_size avctx] d\<rparr>))"
  by (simp add: cng_decode_frame_def Let_def)

lemma map_nth_drop:
  "n + k \<le> length F \<Longrightarrow> map (\<lambda>i. c (F ! (i + k))) [0..<n] = map c (take n (drop k F))"
  by (rule nth_equalityI) (simp_all add: add.commute)

text \<open>The samples of the frame that a call with a buffer emits: the output of the synthesis
  filter, each sample converted to \<open>int16_t\<close>.\<close>

lemma decode_frame_samples:
  assumes "cng_wf avctx" "\<not> r < 0" "frame_size avctx \<le> length d"
  shows "\<exists>fr. fst (cng_decode_frame get buf0 avctx pkt r d) = Inr (int (length pkt), fr) \<and>
           frame_samples fr =
             map c_float_to_int16 (synthesis_output (snd (cng_decode_frame get buf0 avctx pkt r d)))"
proof -
  let ?p = "priv_data avctx"
  let ?P = "synthesize get buf0 (frame_size avctx) pkt ?p"
  let ?a' = "snd (cng_decode_frame get buf0 avctx pkt r d)"
  have wf: "length (refl_coef ?p) = order ?p" "length (target_refl_coef ?p) = order ?p"
    "length (lpc_coef ?p) = order ?p" "length (excitation ?p) = frame_size avctx"
    "length (filter_out ?p) = frame_size avctx + order ?p"
    "order ?p \<le> 100" "order ?p \<le> frame_size avctx"
    using assms by (simp_all add: cng_wf_def Let_def)
  have oP: "order ?P = order ?p"
    using synthesize_closed [of ?p "frame_size avctx" get buf0 pkt] wf
    by (simp add: Let_def smooth_sid_fields)
  have lP: "length (filter_out ?P) = frame_size avctx + order ?p"
    using synthesize_closed [of ?p "frame_size avctx" get buf0 pkt] wf
    by (simp add: Let_def celp_length)
  have fo: "filter_out (priv_data ?a') =
      take (order ?p) (drop (frame_size avctx) (filter_out ?P)) @ drop (order ?p) (filter_out ?P)"
    using assms(2) by (simp add: decode_snd Let_def memcpy_f_def oP)
  have so: "synthesis_output ?a' = take (frame_size avctx) (drop (order ?p) (filter_out ?P))"
    using wf lP assms(2) unfolding synthesis_output_def decode_avctx fo
    by (simp add: decode_snd Let_def oP)
  show ?thesis
    unfolding decode_fst so oP using assms(2,3) lP
    by (simp add: frame_samples_def buf_out_fold map_nth_drop)
qed

lemma centre16_eq: "centre16 x = int (unat x mod 65536) - 32768"
proof -
  let ?k = "uint x mod 65536"
  have k: "0 \<le> ?k" "?k < 65536" by simp_all
  have m: "x AND 0xffff = x AND mask 16" by (simp add: mask_eq_exp_minus_1)
  have a: "x AND 0xffff = (word_of_int ?k :: 32 word)"
    unfolding m and_mask_mod_2p by simp
  have w: "(word_of_int ?k :: 32 word) - 0x8000 = word_of_int (?k - 32768)"
    by simp
  have "centre16 x = sint (word_of_int (?k - 32768) :: 32 word)"
    unfolding centre16_def a w ..
  also have "\<dots> = signed_take_bit 31 (?k - 32768)"
    by (simp only: sint_sbintrunc') simp
  also have "\<dots> = ?k - 32768"
    using k by (intro signed_take_bit_int_eq_self) simp_all
  also have "?k = int (unat x mod 65536)"
    by (simp add: zmod_int)
  finally show ?thesis .
qed

lemma centre16_range: "- 32768 \<le> centre16 x \<and> centre16 x \<le> 32767"
proof -
  have "unat x mod 65536 < 65536" by simp
  then show ?thesis unfolding centre16_eq by linarith
qed

lemma small_avctx_wf: "cng_wf small_avctx"
  by (simp add: cng_wf_def small_avctx_def)

lemma fresh_avctx_eq:
  "fresh_avctx =
     \<lparr>channels = 1, sample_rate = 8000, frame_size = 640,
      priv_data = \<lparr>refl_coef = replicate 12 0, target_refl_coef = replicate 12 0,
                   lpc_coef = replicate 12 0, order = 12, energy = 0,
                   target_energy = 0, inited = 0, filter_out = replicate 652 0,
                   excitation = replicate 640 0, lfg = 0\<rparr>\<rparr>"
  by (simp add: fresh_avctx_def cng_decode_init_def zeroed_avctx_def counter_init_def Let_def)

lemma fresh_avctx_wf: "cng_wf fresh_avctx"
  by (simp add: cng_wf_def fresh_avctx_eq)

lemma decode_energy:
  assumes "cng_wf avctx"
  shows "target_energy (priv_data (snd (cng_decode_frame get buf0 avctx pkt r d))) =
           target_energy (sid_update pkt (priv_data avctx))"
    and "energy (priv_data (snd (cng_decode_frame get buf0 avctx pkt r d))) =
           (if inited (priv_data avctx) \<noteq> 0
            then energy (priv_data avctx) sdiv 2 + target_energy (sid_update pkt (priv_data avctx)) sdiv 2
            else target_energy (sid_update pkt (priv_data avctx)))"
    and "inited (priv_data (snd (cng_decode_frame get buf0 avctx pkt r d))) =
           (if inited (priv_data avctx) \<noteq> 0 then inited (priv_data avctx) else 1)"
proof -
  let ?p = "priv_data avctx"
  have wf: "length (refl_coef ?p) = order ?p" "length (target_refl_coef ?p) = order ?p"
    using assms(1) by (simp_all add: cng_wf_def Let_def)
  show "target_energy (priv_data (snd (cng_decode_frame get buf0 avctx pkt r d))) =
           target_energy (sid_update pkt (priv_data avctx))"
    and "energy (priv_data (snd (cng_decode_frame get buf0 avctx pkt r d))) =
           (if inited (priv_data avctx) \<noteq> 0
            then energy (priv_data avctx) sdiv 2 + target_energy (sid_update pkt (priv_data avctx)) sdiv 2
            else target_energy (sid_update pkt (priv_data avctx)))"
    and "inited (priv_data (snd (cng_decode_frame get buf0 avctx pkt r d))) =
           (if inited (priv_data avctx) \<noteq> 0 then inited (priv_data avctx) else 1)"
    using wf
    by (simp_all add: decode_priv [OF assms(1)] Let_def smooth_update_closed sid_update_other
        sid_update_order)
qed

lemma sid_energy_0: "sid_energy [0] = 810832481"
  by (simp add: sid_energy_def c_double_to_int_def)

lemma decoded_once_wf: "cng_wf (decoded_once pkt)"
  unfolding decoded_once_def by (rule decode_wf [OF fresh_avctx_wf])

lemma decoded_once_0:
  "target_energy (priv_data (decoded_once [0])) = 810832481"
  "energy (priv_data (decoded_once [0])) = 810832481"
  "inited (priv_data (decoded_once [0])) = 1"
  unfolding decoded_once_def decode_energy [OF fresh_avctx_wf]
  by (simp_all add: sid_update_closed sid_energy_0 fresh_avctx_eq)

lemma sid_coefs_take: "sid_coefs (take (ord + 1) pkt) ord = sid_coefs pkt ord"
proof -
  have m: "min (length (take (ord + 1) pkt) - 1) ord = min (length pkt - 1) ord"
    by auto
  have "map (\<lambda>i. real_of_int (uint (take (ord + 1) pkt ! (1 + i)) - 127) / 128)
          [0..<min (length pkt - 1) ord] =
        map (\<lambda>i. real_of_int (uint (pkt ! (1 + i)) - 127) / 128) [0..<min (length pkt - 1) ord]"
    by (rule map_cong) simp_all
  then show ?thesis
    unfolding sid_coefs_def m by simp
qed

lemma sid_update_take: "sid_update (take (order p + 1) pkt) p = sid_update pkt p"
proof (cases "pkt = []")
  case True
  then show ?thesis by simp
next
  case False
  then have n: "take (order p + 1) pkt \<noteq> []" by simp
  have e: "sid_energy (take (order p + 1) pkt) = sid_energy pkt"
    by (simp add: sid_energy_def)
  show ?thesis
    unfolding sid_update_closed [OF False] sid_update_closed [OF n] e sid_coefs_take ..
qed

lemma decode_target_refl:
  assumes "cng_wf avctx"
  shows "target_refl_coef (priv_data (snd (cng_decode_frame get buf0 avctx pkt r d))) =
           target_refl_coef (sid_update pkt (priv_data avctx))"
    and "refl_coef (priv_data (snd (cng_decode_frame get buf0 avctx pkt r d))) =
           refl_coef (smooth_update (sid_update pkt (priv_data avctx)))"
    and "order (priv_data (snd (cng_decode_frame get buf0 avctx pkt r d))) = order (priv_data avctx)"
proof -
  let ?p = "priv_data avctx"
  have wf: "length (refl_coef ?p) = order ?p" "length (target_refl_coef ?p) = order ?p"
    using assms(1) by (simp_all add: cng_wf_def Let_def)
  show "target_refl_coef (priv_data (snd (cng_decode_frame get buf0 avctx pkt r d))) =
           target_refl_coef (sid_update pkt (priv_data avctx))"
    and "refl_coef (priv_data (snd (cng_decode_frame get buf0 avctx pkt r d))) =
           refl_coef (smooth_update (sid_update pkt (priv_data avctx)))"
    and "order (priv_data (snd (cng_decode_frame get buf0 avctx pkt r d))) = order (priv_data avctx)"
    using wf by (simp_all add: decode_priv [OF assms(1)] Let_def smooth_sid_fields)
qed

lemma decode_snd_take:
  "snd (cng_decode_frame get buf0 avctx (take (order (priv_data avctx) + 1) pkt) r d) =
   snd (cng_decode_frame get buf0 avctx pkt r d)"
  unfolding decode_snd synthesize_def sid_update_take ..

lemma sid_energy_floor:
  "sid_energy pkt = \<lfloor>1081109975 * 10 powr (- real (unat (pkt ! 0)) / 10) * 0.75\<rfloor>"
  by (simp add: sid_energy_def c_double_to_int_def)

lemma sid_coefs_nth:
  "i < min (length pkt - 1) ord \<Longrightarrow> sid_coefs pkt ord ! i = (real (unat (pkt ! (1 + i))) - 127) / 128"
  by (simp add: sid_coefs_def nth_append)

lemma nth_append_replicate:
  "length xs \<le> i \<Longrightarrow> i < length xs + n \<Longrightarrow> (xs @ replicate n z) ! i = z"
  by (simp add: nth_append)

lemma sid_coefs_nth_zero:
  assumes "min (length pkt - 1) ord \<le> i" and "i < ord"
  shows "sid_coefs pkt ord ! i = 0"
proof -
  let ?k = "min (length pkt - 1) ord"
  let ?xs = "map (\<lambda>i. real_of_int (uint (pkt ! (1 + i)) - 127) / 128) [0..<?k]"
  have l: "length ?xs = ?k" by simp
  have "length ?xs \<le> i" "i < length ?xs + (ord - ?k)"
    unfolding l using assms by linarith+
  then show ?thesis
    unfolding sid_coefs_def by (rule nth_append_replicate)
qed

lemma decode_filter_out:
  assumes "cng_wf avctx"
  shows "take (order (priv_data avctx)) (filter_out (priv_data (snd (cng_decode_frame get buf0 avctx pkt r d)))) =
      (if r < 0 then take (order (priv_data avctx)) (filter_out (priv_data avctx))
       else drop (frame_size avctx - order (priv_data avctx))
              (synthesis_output (snd (cng_decode_frame get buf0 avctx pkt r d))))"
    and "drop (order (priv_data avctx)) (filter_out (priv_data (snd (cng_decode_frame get buf0 avctx pkt r d)))) =
         drop (order (priv_data avctx)) (filter_out (priv_data (snd (cng_decode_frame get buf0 avctx pkt r' d'))))"
    and "length (synthesis_output (snd (cng_decode_frame get buf0 avctx pkt r d))) = frame_size avctx"
proof -
  let ?p = "priv_data avctx"
  let ?n = "order ?p"
  let ?fs = "frame_size avctx"
  have wf: "length (refl_coef ?p) = ?n" "length (target_refl_coef ?p) = ?n"
    "length (filter_out ?p) = ?fs + ?n" "?n \<le> ?fs"
    using assms by (simp_all add: cng_wf_def Let_def)
  define F where "F = celp_lp_synthesis_filterf (filter_out ?p) ?n
     (map Rep_float32 (step_up_recursion (map f32 (refl_coef (smooth_update (sid_update pkt ?p))))))
     (map (\<lambda>x. to_float (noise_scaling (prediction_gain (smooth_update (sid_update pkt ?p)))
                        (energy (smooth_update (sid_update pkt ?p))) *
                      to_float (real_of_int (centre16 x)))) (lfg_draws get (lfg ?p) ?fs)) ?fs ?n"
  have lF: "length F = ?fs + ?n" and tF: "take ?n F = take ?n (filter_out ?p)"
    using wf by (simp_all add: F_def celp_length celp_take)
  have fo: "filter_out (priv_data (snd (cng_decode_frame get buf0 avctx pkt r d))) =
      (if r < 0 then F else take ?n (drop ?fs F) @ drop ?n F)" for r d
    by (simp add: decode_priv [OF assms] Let_def F_def)
  have l1: "length (take ?n (drop ?fs F)) = ?n" using lF by simp
  have so: "synthesis_output (snd (cng_decode_frame get buf0 avctx pkt r d)) = drop ?n F"
    using lF l1 by (simp add: synthesis_output_def decode_avctx decode_target_refl [OF assms] fo)
  show "take ?n (filter_out (priv_data (snd (cng_decode_frame get buf0 avctx pkt r d)))) =
      (if r < 0 then take ?n (filter_out ?p)
       else drop (?fs - ?n) (synthesis_output (snd (cng_decode_frame get buf0 avctx pkt r d))))"
    unfolding so using lF l1 wf(4) by (simp add: fo tF)
  show "drop ?n (filter_out (priv_data (snd (cng_decode_frame get buf0 avctx pkt r d)))) =
         drop ?n (filter_out (priv_data (snd (cng_decode_frame get buf0 avctx pkt r' d'))))"
    using l1 by (simp add: fo)
  show "length (synthesis_output (snd (cng_decode_frame get buf0 avctx pkt r d))) = ?fs"
    unfolding so using lF by simp
qed

text \<open>A call's effect on the context does not depend on what \<open>buf\<close> held, nor on the buffer
  of the frame, nor on the return value of \<open>ff_get_buffer\<close> beyond its sign.\<close>

lemma decode_snd_indep:
  assumes "cng_wf avctx" and "r < 0 \<longleftrightarrow> r' < 0"
  shows "snd (cng_decode_frame get buf0 avctx pkt r d) = snd (cng_decode_frame get buf0' avctx pkt r' d')"
proof -
  have "priv_data (snd (cng_decode_frame get buf0 avctx pkt r d)) =
        priv_data (snd (cng_decode_frame get buf0' avctx pkt r' d'))"
    unfolding decode_priv [OF assms(1)] using assms(2) by simp
  moreover have "snd (cng_decode_frame get b avctx pkt x y) =
      avctx\<lparr>priv_data := priv_data (snd (cng_decode_frame get b avctx pkt x y))\<rparr>" for b x y
    by (simp add: decode_snd)
  ultimately show ?thesis by metis
qed

subsection \<open>Sequences of events\<close>

lemma init_result:
  assumes "cng_decode_init li ok a0 = Inr a"
  shows "a = \<lparr>channels = 1, sample_rate = 8000, frame_size = 640,
      priv_data = \<lparr>refl_coef = replicate 12 0, target_refl_coef = replicate 12 0,
                   lpc_coef = replicate 12 0, order = 12, energy = energy (priv_data a0),
                   target_energy = target_energy (priv_data a0), inited = inited (priv_data a0),
                   filter_out = replicate 652 0, excitation = replicate 640 0, lfg = li 0\<rparr>\<rparr>"
  using assms
  by (cases a0; cases "priv_data a0")
     (auto simp add: cng_decode_init_def Let_def split: if_splits)

lemma init_wf:
  assumes "cng_decode_init li ok a0 = Inr a"
  shows "cng_wf a"
  unfolding init_result [OF assms] by (simp add: cng_wf_def)

lemma step_wf:
  assumes "cng_wf a"
  shows "cng_wf (snd (cng_step get a ev))"
proof (cases ev)
  case (Decode pkt b r d)
  have "snd (cng_step get a ev) = snd (cng_decode_frame get b a pkt r d)"
    unfolding Decode by (simp split: prod.splits sum.splits)
  then show ?thesis using decode_wf [OF assms] by simp
next
  case Flush
  then show ?thesis using assms by (simp add: cng_wf_def cng_decode_flush_def Let_def)
qed

lemma step_Decode:
  "snd (cng_step get a (Decode pkt b r d)) = snd (cng_decode_frame get b a pkt r d)"
  "fst (cng_step get a (Decode pkt b r d)) =
     (if r < 0 then None
      else Some (frame_samples
        \<lparr>nb_samples = frame_size a,
         data0 = fold (\<lambda>i out. out[i := c_float_to_int16
                   (filter_out (synthesize get b (frame_size a) pkt (priv_data a)) !
                      (i + order (synthesize get b (frame_size a) pkt (priv_data a))))])
                 [0..<frame_size a] d\<rparr>))"
proof -
  obtain res a' where c: "cng_decode_frame get b a pkt r d = (res, a')"
    by (cases "cng_decode_frame get b a pkt r d")
  have res: "res = fst (cng_decode_frame get b a pkt r d)" using c by simp
  show "snd (cng_step get a (Decode pkt b r d)) = snd (cng_decode_frame get b a pkt r d)"
    using c by (cases res) (auto split: prod.splits)
  show "fst (cng_step get a (Decode pkt b r d)) =
     (if r < 0 then None
      else Some (frame_samples
        \<lparr>nb_samples = frame_size a,
         data0 = fold (\<lambda>i out. out[i := c_float_to_int16
                   (filter_out (synthesize get b (frame_size a) pkt (priv_data a)) !
                      (i + order (synthesize get b (frame_size a) pkt (priv_data a))))])
                 [0..<frame_size a] d\<rparr>))"
    using c res [unfolded decode_fst] by (cases "r < 0") simp_all
qed

lemma step_Flush: "cng_step get a Flush = (None, cng_decode_flush a)"
  by simp

declare cng_step.simps [simp del]

lemma step_emits: "fst (cng_step get a (Decode pkt b r d)) = None \<longleftrightarrow> r < 0"
  by (simp add: step_Decode)

lemma step_samples:
  assumes "cng_wf a" and "\<not> r < 0" and "frame_size a \<le> length d"
  shows "fst (cng_step get a (Decode pkt b r d)) =
     Some (map c_float_to_int16 (synthesis_output (snd (cng_step get a (Decode pkt b r d)))))"
proof -
  obtain fr where fr: "fst (cng_decode_frame get b a pkt r d) = Inr (int (length pkt), fr)"
    "frame_samples fr = map c_float_to_int16 (synthesis_output (snd (cng_decode_frame get b a pkt r d)))"
    using decode_frame_samples [OF assms] by blast
  obtain a' where "cng_decode_frame get b a pkt r d = (Inr (int (length pkt), fr), a')"
    using fr(1) by (cases "cng_decode_frame get b a pkt r d") simp
  then show ?thesis using fr(2) by (simp add: cng_step.simps)
qed

lemma step_order:
  assumes "cng_wf a"
  shows "order (priv_data (snd (cng_step get a ev))) = order (priv_data a)"
    and "frame_size (snd (cng_step get a ev)) = frame_size a"
  using assms
  by (cases ev; simp add: step_Decode step_Flush decode_target_refl decode_avctx cng_decode_flush_def)+

lemma run_wf_all:
  assumes "cng_wf a"
  shows "cng_wf (snd (cng_run get a evs)) \<and>
         order (priv_data (snd (cng_run get a evs))) = order (priv_data a) \<and>
         frame_size (snd (cng_run get a evs)) = frame_size a"
  using assms
proof (induction evs arbitrary: a)
  case Nil
  then show ?case by simp
next
  case (Cons ev evs)
  have s: "snd (cng_run get a (ev # evs)) = snd (cng_run get (snd (cng_step get a ev)) evs)"
    by (simp split: prod.splits)
  from Cons.IH [OF step_wf [OF Cons.prems]]
  show ?case unfolding s by (simp add: step_order [OF Cons.prems])
qed

lemma run_wf:
  assumes "cng_wf a"
  shows "cng_wf (snd (cng_run get a evs))"
    and "order (priv_data (snd (cng_run get a evs))) = order (priv_data a)"
    and "frame_size (snd (cng_run get a evs)) = frame_size a"
  using run_wf_all [OF assms] by simp_all

text \<open>The first \<open>order\<close> cells of \<open>filter_out\<close>, given the output of the last frame emitted.\<close>

lemma history_step:
  assumes "cng_wf a"
  shows "take (order (priv_data a)) (filter_out (priv_data (snd (cng_step get a ev)))) =
     (case fst (cng_step get a ev) of
        None \<Rightarrow> take (order (priv_data a)) (filter_out (priv_data a))
      | Some fr \<Rightarrow> drop (length (synthesis_output (snd (cng_step get a ev))) - order (priv_data a))
                    (synthesis_output (snd (cng_step get a ev))))"
proof (cases ev)
  case (Decode pkt b r d)
  show ?thesis
  proof (cases "r < 0")
    case True
    then have "fst (cng_step get a ev) = None" unfolding Decode by (simp add: step_emits)
    then show ?thesis
      using decode_filter_out(1) [OF assms, of get b pkt r d] True
      unfolding Decode by (simp add: step_Decode(1))
  next
    case False
    then obtain fr where "fst (cng_step get a ev) = Some fr"
      unfolding Decode using step_emits [of get a pkt b r d] by auto
    then show ?thesis
      using decode_filter_out(1) [OF assms, of get b pkt r d] False
        decode_filter_out(3) [OF assms, of get b pkt r d]
      unfolding Decode by (simp add: step_Decode(1))
  qed
next
  case Flush
  then show ?thesis by (simp add: step_Flush cng_decode_flush_def)
qed

lemma history_run:
  assumes "cng_wf a"
    and "take (order (priv_data a)) (filter_out (priv_data a)) =
         (case prev of None \<Rightarrow> replicate (order (priv_data a)) 0
                     | Some S \<Rightarrow> drop (length S - order (priv_data a)) S)"
  shows "take (order (priv_data a)) (filter_out (priv_data (snd (cng_run get a evs)))) =
         (case last_synthesis get a prev evs of
            None \<Rightarrow> replicate (order (priv_data a)) 0
          | Some S \<Rightarrow> drop (length S - order (priv_data a)) S)"
  using assms
proof (induction evs arbitrary: a prev)
  case Nil
  then show ?case by simp
next
  case (Cons ev evs)
  let ?a' = "snd (cng_step get a ev)"
  have s: "snd (cng_run get a (ev # evs)) = snd (cng_run get ?a' evs)"
    by (simp split: prod.splits)
  have wf': "cng_wf ?a'" using Cons.prems(1) by (rule step_wf)
  have o: "order (priv_data ?a') = order (priv_data a)"
    using Cons.prems(1) by (rule step_order)
  show ?case
  proof (cases "fst (cng_step get a ev)")
    case None
    then have l: "last_synthesis get a prev (ev # evs) = last_synthesis get ?a' prev evs"
      by (cases "cng_step get a ev") simp
    have "take (order (priv_data ?a')) (filter_out (priv_data ?a')) =
         (case prev of None \<Rightarrow> replicate (order (priv_data ?a')) 0
                     | Some S \<Rightarrow> drop (length S - order (priv_data ?a')) S)"
      unfolding o using history_step [OF Cons.prems(1), of get ev] None Cons.prems(2) by simp
    from Cons.IH [OF wf' this] show ?thesis unfolding s l o .
  next
    case (Some fr)
    then have l: "last_synthesis get a prev (ev # evs) =
        last_synthesis get ?a' (Some (synthesis_output ?a')) evs"
      by (cases "cng_step get a ev") simp
    have "take (order (priv_data ?a')) (filter_out (priv_data ?a')) =
         (case Some (synthesis_output ?a') of None \<Rightarrow> replicate (order (priv_data ?a')) 0
                     | Some S \<Rightarrow> drop (length S - order (priv_data ?a')) S)"
      unfolding o using history_step [OF Cons.prems(1), of get ev] Some by simp
    from Cons.IH [OF wf' this] show ?thesis unfolding s l o .
  qed
qed

lemma int_coef_bounds:
  fixes k :: int
  assumes "- 127 \<le> k" and "k \<le> 128"
  shows "- 127 / 128 \<le> real_of_int k / 128 \<and> real_of_int k / 128 \<le> 1"
  using assms by simp

lemma sid_coefs_bounds:
  assumes "x \<in> set (sid_coefs pkt ord)"
  shows "- 127 / 128 \<le> x \<and> x \<le> 1"
proof -
  have b: "- 127 / 128 \<le> real_of_int (uint w - 127) / 128 \<and> real_of_int (uint w - 127) / 128 \<le> 1"
    for w :: "8 word"
  proof -
    have "0 \<le> uint w" "uint w < 256" using uint_bounded [of w] by simp_all
    then have "- 127 \<le> uint w - 127" "uint w - 127 \<le> 128" by simp_all
    then show ?thesis by (rule int_coef_bounds)
  qed
  from assms consider i where "x = real_of_int (uint (pkt ! (1 + i)) - 127) / 128" | "x = 0"
    unfolding sid_coefs_def by auto
  then show ?thesis
  proof cases
    case 1
    show ?thesis unfolding 1 by (rule b)
  next
    case 2
    then show ?thesis by simp
  qed
qed

lemma smooth_bounds:
  assumes "- 127 / 128 \<le> r \<and> r \<le> 1" and "- 127 / 128 \<le> t \<and> t \<le> 1"
  shows "- 127 / 128 \<le> smooth_coef r t \<and> smooth_coef r t \<le> 1"
  using assms smooth_coef_lower [of r t] smooth_coef_upper [of r t] by simp

text \<open>The bounds of the reflection coefficients and of their targets.\<close>

lemma coef_bounds_decode:
  assumes "cng_wf a"
    and "\<forall>x\<in>set (refl_coef (priv_data a)). - 127 / 128 \<le> x \<and> x \<le> 1"
    and "\<forall>x\<in>set (target_refl_coef (priv_data a)). - 127 / 128 \<le> x \<and> x \<le> 1"
  shows "(\<forall>x\<in>set (refl_coef (priv_data (snd (cng_decode_frame get b a pkt r d)))).
            - 127 / 128 \<le> x \<and> x \<le> 1) \<and>
         (\<forall>x\<in>set (target_refl_coef (priv_data (snd (cng_decode_frame get b a pkt r d)))).
            - 127 / 128 \<le> x \<and> x \<le> 1)"
proof -
  let ?p = "priv_data a"
  let ?q = "sid_update pkt ?p"
  have wf: "length (refl_coef ?p) = order ?p" "length (target_refl_coef ?p) = order ?p"
    using assms(1) by (simp_all add: cng_wf_def Let_def)
  have lt: "length (target_refl_coef ?q) = order ?p" using wf by (simp add: sid_update_length)
  have t: "\<forall>x\<in>set (target_refl_coef ?q). - 127 / 128 \<le> x \<and> x \<le> 1"
  proof (cases "pkt = []")
    case True
    then show ?thesis using assms(3) by (simp add: sid_update_Nil)
  next
    case False
    then show ?thesis using wf sid_coefs_bounds by (simp add: sid_update_closed)
  qed
  have rq: "refl_coef ?q = refl_coef ?p" "order ?q = order ?p" "inited ?q = inited ?p"
    by (simp_all add: sid_update_other sid_update_order)
  have lq: "order ?q \<le> length (refl_coef ?q)" using wf rq by simp
  have r: "\<forall>x\<in>set (refl_coef (smooth_update ?q)). - 127 / 128 \<le> x \<and> x \<le> 1"
  proof (cases "inited ?p \<noteq> 0")
    case True
    have "refl_coef (smooth_update ?q) =
        map (\<lambda>i. smooth_coef (refl_coef ?p ! i) (target_refl_coef ?q ! i)) [0..<order ?p]"
      using True wf unfolding smooth_update_closed [OF lq] rq by simp
    moreover have "- 127 / 128 \<le> smooth_coef (refl_coef ?p ! i) (target_refl_coef ?q ! i) \<and>
        smooth_coef (refl_coef ?p ! i) (target_refl_coef ?q ! i) \<le> 1" if "i < order ?p" for i
    proof (rule smooth_bounds)
      show "- 127 / 128 \<le> refl_coef ?p ! i \<and> refl_coef ?p ! i \<le> 1"
        using assms(2) that wf(1) nth_mem [of i "refl_coef ?p"] by simp
      show "- 127 / 128 \<le> target_refl_coef ?q ! i \<and> target_refl_coef ?q ! i \<le> 1"
        using t that lt nth_mem [of i "target_refl_coef ?q"] by simp
    qed
    ultimately show ?thesis by auto
  next
    case False
    have "refl_coef (smooth_update ?q) = target_refl_coef ?q"
      using False wf lt unfolding smooth_update_closed [OF lq] rq by simp
    then show ?thesis using t by simp
  qed
  show ?thesis
    unfolding decode_target_refl [OF assms(1)] using r t by simp
qed

lemma coef_bounds_run:
  assumes "cng_wf a"
    and "\<forall>x\<in>set (refl_coef (priv_data a)). - 127 / 128 \<le> x \<and> x \<le> 1"
    and "\<forall>x\<in>set (target_refl_coef (priv_data a)). - 127 / 128 \<le> x \<and> x \<le> 1"
  shows "\<forall>x\<in>set (refl_coef (priv_data (snd (cng_run get a evs)))). - 127 / 128 \<le> x \<and> x \<le> 1"
  using assms
proof (induction evs arbitrary: a)
  case Nil
  then show ?case by simp
next
  case (Cons ev evs)
  let ?a' = "snd (cng_step get a ev)"
  have s: "snd (cng_run get a (ev # evs)) = snd (cng_run get ?a' evs)"
    by (simp split: prod.splits)
  have wf': "cng_wf ?a'" using Cons.prems(1) by (rule step_wf)
  have b: "(\<forall>x\<in>set (refl_coef (priv_data ?a')). - 127 / 128 \<le> x \<and> x \<le> 1) \<and>
           (\<forall>x\<in>set (target_refl_coef (priv_data ?a')). - 127 / 128 \<le> x \<and> x \<le> 1)"
  proof (cases ev)
    case (Decode pkt b r d)
    show ?thesis
      unfolding Decode step_Decode(1) using Cons.prems by (rule coef_bounds_decode)
  next
    case Flush
    then show ?thesis using Cons.prems(2,3) by (simp add: step_Flush cng_decode_flush_def)
  qed
  show ?case unfolding s using Cons.IH [OF wf'] b by blast
qed

lemma step_indep:
  assumes "cng_wf a" and "same_input (frame_size a) e1 e2"
  shows "cng_step get a e1 = cng_step get a e2"
proof (cases e1)
  case d1: (Decode pkt b r d)
  show ?thesis
  proof (cases e2)
    case d2: (Decode pkt' b' r' d')
    have eq: "pkt' = pkt" "r < 0 \<longleftrightarrow> r' < 0"
      "\<not> r < 0 \<Longrightarrow> frame_size a \<le> length d" "\<not> r < 0 \<Longrightarrow> frame_size a \<le> length d'"
      using assms(2) unfolding d1 d2 by auto
    have s: "snd (cng_step get a e1) = snd (cng_step get a e2)"
      unfolding d1 d2 eq(1) step_Decode(1) using assms(1) eq(2) by (rule decode_snd_indep)
    have f: "fst (cng_step get a e1) = fst (cng_step get a e2)"
    proof (cases "r < 0")
      case True
      then have "fst (cng_step get a e1) = None" "fst (cng_step get a e2) = None"
        unfolding d1 d2 using eq(2) by (simp_all add: step_emits)
      then show ?thesis by simp
    next
      case False
      then have n: "\<not> r < 0" "\<not> r' < 0" using eq(2) by simp_all
      show ?thesis
        using step_samples [OF assms(1) n(1) eq(3) [OF n(1)], of get pkt b]
          step_samples [OF assms(1) n(2) eq(4) [OF n(1)], of get pkt b'] s
        unfolding d1 d2 eq(1) by simp
    qed
    show ?thesis by (rule prod_eqI [OF f s])
  next
    case Flush
    then show ?thesis using assms(2) d1 by simp
  qed
next
  case f1: Flush
  then show ?thesis using assms(2) by (cases e2) simp_all
qed

lemma run_indep:
  assumes "list_all2 (same_input fs) evs1 evs2" and "cng_wf a" and "frame_size a = fs"
  shows "cng_run get a evs1 = cng_run get a evs2"
  using assms
proof (induction evs1 evs2 arbitrary: a rule: list_all2_induct)
  case Nil
  then show ?case by simp
next
  case (Cons e1 evs1 e2 evs2)
  have "same_input (frame_size a) e1 e2" using Cons.hyps(1) Cons.prems(2) by simp
  with Cons.prems(1) have s: "cng_step get a e1 = cng_step get a e2"
    by (rule step_indep)
  let ?a' = "snd (cng_step get a e2)"
  have "cng_wf ?a'" using Cons.prems(1) by (rule step_wf)
  moreover have "frame_size ?a' = fs" using step_order(2) [OF Cons.prems(1)] Cons.prems(2) by simp
  ultimately have "cng_run get ?a' evs1 = cng_run get ?a' evs2"
    by (rule Cons.IH)
  then show ?case unfolding cng_run.simps s by (cases "cng_step get a e2") simp
qed

text \<open>The range of the energies.\<close>

lemma sid_energy_range: "0 \<le> sid_energy pkt \<and> sid_energy pkt \<le> 810832481"
proof -
  let ?x = "10 powr (real_of_int (- uint (pkt ! 0)) / 10) :: real"
  have "0 \<le> uint (pkt ! 0)" by simp
  then have "real_of_int (- uint (pkt ! 0)) \<le> real_of_int 0"
    unfolding of_int_le_iff by linarith
  then have "real_of_int (- uint (pkt ! 0)) / 10 \<le> 0" by simp
  then have "?x \<le> 10 powr 0" by (intro powr_mono) simp_all
  then have x: "0 \<le> ?x" "?x \<le> 1" by simp_all
  have "0 \<le> 1081109975 * ?x * 0.75" using x(1) by simp
  moreover have "1081109975 * ?x * 0.75 \<le> 1081109975 * 1 * 0.75"
    using x(2) by (intro mult_right_mono mult_left_mono) simp_all
  then have "\<lfloor>1081109975 * ?x * 0.75\<rfloor> \<le> \<lfloor>1081109975 * 1 * 0.75 :: real\<rfloor>"
    by (rule floor_mono)
  then have "\<lfloor>1081109975 * ?x * 0.75\<rfloor> \<le> 810832481" by simp
  ultimately show ?thesis
    unfolding sid_energy_def c_double_to_int_def by simp
qed

lemma decode_energy_range:
  assumes "cng_wf avctx"
    and "0 \<le> energy (priv_data avctx) \<and> energy (priv_data avctx) \<le> 810832481"
    and "0 \<le> target_energy (priv_data avctx) \<and> target_energy (priv_data avctx) \<le> 810832481"
  shows "0 \<le> energy (priv_data (snd (cng_decode_frame get buf0 avctx pkt r d))) \<and>
         energy (priv_data (snd (cng_decode_frame get buf0 avctx pkt r d))) \<le> 810832481 \<and>
         0 \<le> target_energy (priv_data (snd (cng_decode_frame get buf0 avctx pkt r d))) \<and>
         target_energy (priv_data (snd (cng_decode_frame get buf0 avctx pkt r d))) \<le> 810832481"
proof -
  let ?t = "target_energy (sid_update pkt (priv_data avctx))"
  have t: "0 \<le> ?t \<and> ?t \<le> 810832481"
    using assms(3) sid_energy_range [of pkt]
    by (cases "pkt = []") (simp_all add: sid_update_Nil sid_update_closed)
  have h: "0 \<le> a sdiv 2 + b sdiv 2 \<and> a sdiv 2 + b sdiv 2 \<le> 810832481"
    if "0 \<le> a \<and> a \<le> 810832481" and "0 \<le> b \<and> b \<le> 810832481" for a b :: int
    using that by (simp add: signed_divide_int_def sgn_if) linarith
  show ?thesis
    unfolding decode_energy [OF assms(1)] using t h [OF assms(2) t] by simp
qed

lemma decoded_once_order: "order (priv_data (decoded_once pkt)) = 12"
  unfolding decoded_once_def decode_target_refl [OF fresh_avctx_wf]
  by (simp add: fresh_avctx_eq)

lemma cng_decode_init_fresh:
  "cng_decode_init counter_init (\<lambda>k. True) zeroed_avctx = Inr fresh_avctx"
  by (simp add: fresh_avctx_def cng_decode_init_def Let_def)

subsection \<open>Worked values\<close>

text \<open>Values of the rounded operations on the inputs of the examples below, and the
  decoder after one call.\<close>

lemma sid_coefs_0_191: "sid_coefs [0, 191] 12 ! 0 = 1 / 2"
  by (simp add: sid_coefs_def)

lemma sid_coefs_0_159: "sid_coefs [0, 159] 12 ! 0 = 1 / 4"
  by (simp add: sid_coefs_def)

lemma decoded_once_refl: "refl_coef (priv_data (decoded_once pkt)) =
    target_refl_coef (sid_update pkt (priv_data fresh_avctx))"
  unfolding decoded_once_def decode_target_refl [OF fresh_avctx_wf]
  by (simp add: smooth_update_closed sid_update_other sid_update_order sid_update_length fresh_avctx_eq)

lemma decoded_once_energy:
  "pkt \<noteq> [] \<Longrightarrow> energy (priv_data (decoded_once pkt)) = sid_energy pkt"
  "pkt \<noteq> [] \<Longrightarrow> target_energy (priv_data (decoded_once pkt)) = sid_energy pkt"
  "inited (priv_data (decoded_once pkt)) = 1"
  unfolding decoded_once_def decode_energy [OF fresh_avctx_wf]
  by (simp_all add: sid_update_closed fresh_avctx_eq)

lemma sid_energy_0_any: "sid_energy (0 # bs) = 810832481"
  by (simp add: sid_energy_def c_double_to_int_def)

lemma smooth_coef_inexact: "smooth_coef (1 / 2) (1 / 4) \<noteq> 0.6 * (1 / 2) + 0.4 * (1 / 4)"
  unfolding smooth_coef_example by simp

lemma rne_between:
  assumes "of_int n - 1 / 2 < x" and "x < of_int n + 1 / 2"
  shows "round_nearest_even x = n"
proof (cases "of_int n \<le> x")
  case True
  then have f: "\<lfloor>x\<rfloor> = n" using assms(2) by linarith
  show ?thesis using assms(2) True by (simp add: round_nearest_even_def Let_def f)
next
  case False
  then have f: "\<lfloor>x\<rfloor> = n - 1" using assms(1) by linarith
  show ?thesis using assms(1) False by (simp add: round_nearest_even_def Let_def f)
qed

lemma float_1081109975: "to_float 1081109975 = 1081110016"
  unfolding to_float_def
  by (subst fp_round_large [where k = 30]) (simp_all add: round_nearest_even_def)

lemma float_810832481: "to_float 810832481 = 810832512"
  unfolding to_float_def
  by (subst fp_round_large [where k = 29]) (simp_all add: round_nearest_even_def)

lemma float_810832512: "to_float 810832512 = 810832512"
  using to_float_idem [of 810832481] unfolding float_810832481 .

lemma float_three_quarters: "to_float (3 / 4) = 3 / 4"
  by (subst to_float_small [where j = 1]) (simp_all add: round_nearest_even_def)

lemma sqrt_three_quarters_bounds:
  "7800463371553962 - 1 / 2 < sqrt (3 / 4) * 2 ^ 53"
  "sqrt (3 / 4) * 2 ^ 53 < 7800463371553962 + 1 / 2"
proof -
  have e: "sqrt (3 / 4) * 2 ^ 53 = sqrt (3 / 4 * (2 ^ 53)\<^sup>2)"
    unfolding real_sqrt_mult real_sqrt_abs by simp
  show "7800463371553962 - 1 / 2 < sqrt (3 / 4) * 2 ^ 53"
    unfolding e by (rule real_less_rsqrt) (simp add: power2_eq_square)
  show "sqrt (3 / 4) * 2 ^ 53 < 7800463371553962 + 1 / 2"
    unfolding e by (rule real_less_lsqrt) (simp_all add: power2_eq_square)
qed

lemma sqrt_three_quarters_range: "1 \<le> sqrt (3 / 4) * 2" "sqrt (3 / 4) * 2 < 2"
proof -
  have e: "sqrt (3 / 4) * 2 = sqrt (3 / 4 * 2\<^sup>2)"
    unfolding real_sqrt_mult real_sqrt_abs by simp
  show "1 \<le> sqrt (3 / 4) * 2"
    unfolding e by (rule real_le_rsqrt) simp
  show "sqrt (3 / 4) * 2 < 2"
    unfolding e by (rule real_less_lsqrt) simp_all
qed

lemma double_sqrt_three_quarters: "to_double (sqrt (3 / 4)) = 7800463371553962 / 2 ^ 53"
proof -
  have r: "round_nearest_even (sqrt (3 / 4) * 2 ^ 53) = 7800463371553962"
    using sqrt_three_quarters_bounds by (intro rne_between) simp_all
  have a: "1 \<le> \<bar>sqrt (3 / 4)\<bar> * 2 ^ 1" "\<bar>sqrt (3 / 4)\<bar> * 2 ^ 1 < 2"
    using sqrt_three_quarters_range by simp_all
  have "to_double (sqrt (3 / 4)) =
      of_int (round_nearest_even (sqrt (3 / 4) * 2 ^ (1 + 52))) / 2 ^ (1 + 52)"
    using a by (rule to_double_small) simp
  then show ?thesis using r by simp
qed

lemma float_sqrt_three_quarters: "to_float (7800463371553962 / 2 ^ 53) = 14529495 / 2 ^ 24"
  by (subst to_float_small [where j = 1]) (simp_all add: round_nearest_even_def)

lemma noise_scaling_example: "noise_scaling 1 810832481 = 14529495 / 2 ^ 24"
proof -
  have q: "(810832512::real) / 1081110016 = 3 / 4" by simp
  show ?thesis
    unfolding noise_scaling_def of_int_numeral float_810832481 mult_1 float_810832512
      float_1081109975 q float_three_quarters double_sqrt_three_quarters
      float_sqrt_three_quarters ..
qed

lemma float_sample_example: "to_float (14529495 / 2 ^ 24 * (- 32768)) = - (14529495 / 512)"
proof -
  have "to_float (- (14529495 / 512)) = - (14529495 / 512)"
    unfolding to_float_def
    by (subst fp_round_mid [where k = 14]) (simp_all add: round_nearest_even_def)
  then show ?thesis by simp
qed

lemma sqrt_energy_ratio: "sqrt (810832481 / 1081109975) \<noteq> 14529495 / 2 ^ 24"
proof
  assume "sqrt (810832481 / 1081109975) = 14529495 / 2 ^ 24"
  then have "(sqrt (810832481 / 1081109975))\<^sup>2 = (14529495 / 2 ^ 24)\<^sup>2" by (simp only:)
  moreover have "(sqrt (810832481 / 1081109975))\<^sup>2 = 810832481 / 1081109975"
    by (rule real_sqrt_pow2) simp
  ultimately have "(810832481::real) / 1081109975 = (14529495 / 2 ^ 24)\<^sup>2" by (simp only:)
  then show False by (simp add: power2_eq_square)
qed

lemma gain_step_0 [simp]: "gain_step 1 0 = 1"
  by (simp add: gain_step_def)

lemma foldl_gain_step_0: "foldl gain_step 1 (replicate n 0) = 1"
  by (induction n) simp_all

lemma lfg_draws_0: "0 < n \<Longrightarrow> lfg_draws get g n ! 0 = fst (get g)"
  by (cases n) (simp_all split: prod.splits)

lemma centre16_0: "centre16 0 = - 32768"
  by (simp add: centre16_def)

lemma decoded_once_0_refl: "refl_coef (priv_data (decoded_once [0])) = replicate 12 0"
  unfolding decoded_once_refl by (simp add: sid_update_closed fresh_avctx_eq sid_coefs_def)

lemma gain_step_fun:
  "(\<lambda>e r. to_float (to_double (e * to_double (1 - to_float (r * r))))) = gain_step"
  by (simp add: gain_step_def fun_eq_iff)

lemma float_centre16: "to_float (real_of_int (centre16 x)) = real_of_int (centre16 x)"
proof -
  have "\<bar>centre16 x\<bar> < 2 ^ 24"
    using centre16_range [of x] by (simp add: abs_less_iff)
  then show ?thesis by (rule to_float_int)
qed

lemma decode_excitation:
  assumes "cng_wf avctx"
  shows "excitation (priv_data (snd (cng_decode_frame get buf0 avctx pkt r d))) =
      map (\<lambda>x. to_float (noise_scaling
                  (foldl gain_step 1 (refl_coef (priv_data (snd (cng_decode_frame get buf0 avctx pkt r d)))))
                  (energy (priv_data (snd (cng_decode_frame get buf0 avctx pkt r d))))
                * real_of_int (centre16 x)))
        (lfg_draws get (lfg (priv_data avctx)) (frame_size avctx))"
    and "lfg (priv_data (snd (cng_decode_frame get buf0 avctx pkt r d))) =
      lfg_skip get (lfg (priv_data avctx)) (frame_size avctx)"
proof -
  let ?p = "priv_data avctx"
  let ?q = "smooth_update (sid_update pkt ?p)"
  have wf: "length (refl_coef ?p) = order ?p" "length (target_refl_coef ?p) = order ?p"
    using assms(1) by (simp_all add: cng_wf_def Let_def)
  have lq: "length (refl_coef ?q) = order ?q" "order ?q = order ?p"
    using wf by (simp_all add: smooth_sid_fields)
  have pg: "prediction_gain ?q = foldl gain_step 1 (refl_coef ?q)"
    using prediction_gain_foldl [of ?q] lq by simp
  show "excitation (priv_data (snd (cng_decode_frame get buf0 avctx pkt r d))) =
      map (\<lambda>x. to_float (noise_scaling
                  (foldl gain_step 1 (refl_coef (priv_data (snd (cng_decode_frame get buf0 avctx pkt r d)))))
                  (energy (priv_data (snd (cng_decode_frame get buf0 avctx pkt r d))))
                * real_of_int (centre16 x)))
        (lfg_draws get (lfg (priv_data avctx)) (frame_size avctx))"
    by (simp add: decode_priv [OF assms(1)] Let_def pg float_centre16)
  show "lfg (priv_data (snd (cng_decode_frame get buf0 avctx pkt r d))) =
      lfg_skip get (lfg (priv_data avctx)) (frame_size avctx)"
    by (simp add: decode_priv [OF assms(1)] Let_def)
qed

section \<open>The claims\<close>

text \<open>
  Claim C9.  \<open>cng_decode_flush\<close> sets \<open>inited\<close> to 0 and leaves \<open>filter_out\<close> as it is;
  it changes no other field: putting the old value of \<open>inited\<close> back gives the context
  before the call.
\<close>

theorem flush_frame:
  "inited (priv_data (cng_decode_flush avctx)) = 0 \<and>
   filter_out (priv_data (cng_decode_flush avctx)) = filter_out (priv_data avctx) \<and>
   (cng_decode_flush avctx)\<lparr>priv_data :=
       (priv_data (cng_decode_flush avctx))\<lparr>inited := inited (priv_data avctx)\<rparr>\<rparr> = avctx"
  by (simp add: cng_decode_flush_def)

text \<open>
  Claim C6.  A call that finds \<open>inited\<close> at 0 leaves in \<open>target_energy\<close> and
  \<open>target_refl_coef\<close> what the packet of the call sets them to, and what they held before
  the call when the packet is empty; it copies \<open>target_energy\<close> to \<open>energy\<close> and
  \<open>target_refl_coef\<close> to \<open>refl_coef\<close>, with no blend, and sets \<open>inited\<close> to 1; this
  whether \<open>ff_get_buffer\<close> succeeds or not.
\<close>

theorem first_frame_snap:
  assumes "cng_wf avctx" and "inited (priv_data avctx) = 0"
  shows "let p = priv_data avctx;
             p' = priv_data (snd (cng_decode_frame get buf0 avctx pkt r d))
         in target_energy p' = (if pkt = [] then target_energy p else sid_energy pkt) \<and>
            target_refl_coef p' =
              (if pkt = [] then target_refl_coef p else sid_coefs pkt (order p)) \<and>
            energy p' = target_energy p' \<and> refl_coef p' = target_refl_coef p' \<and> inited p' = 1"
proof -
  let ?p = "priv_data avctx"
  have wf: "length (refl_coef ?p) = order ?p" "length (target_refl_coef ?p) = order ?p"
    using assms(1) by (simp_all add: cng_wf_def Let_def)
  have l: "length (target_refl_coef (sid_update pkt ?p)) = order ?p"
    using wf by (simp add: sid_update_length)
  have t: "target_energy (sid_update pkt ?p) = (if pkt = [] then target_energy ?p else sid_energy pkt)"
    "target_refl_coef (sid_update pkt ?p) =
       (if pkt = [] then target_refl_coef ?p else sid_coefs pkt (order ?p))"
    using wf by (simp_all add: sid_update_Nil sid_update_closed)
  have "refl_coef (smooth_update (sid_update pkt ?p)) = target_refl_coef (sid_update pkt ?p)"
    using assms(2) wf l
    by (simp add: smooth_update_closed sid_update_other sid_update_order)
  then show ?thesis
    unfolding Let_def decode_energy [OF assms(1)] decode_target_refl [OF assms(1)] t [symmetric]
    using assms(2) by simp
qed

text \<open>
  A flushed decoder whose energy is 5 and whose target is 3, with the coefficient
  \<open>1 / 2\<close> and the target \<open>1 / 4\<close>, and an empty packet: the call leaves 3 and
  \<open>1 / 4\<close> in both.
\<close>

theorem first_frame_snap_witness:
  "cng_wf (cng_decode_flush small_avctx) \<and> inited (priv_data (cng_decode_flush small_avctx)) = 0 \<and>
   target_energy (priv_data (snd (cng_decode_frame counter_get (\<lambda>i. 0)
       (cng_decode_flush small_avctx) [] 0 [0, 0]))) = 3 \<and>
   target_refl_coef (priv_data (snd (cng_decode_frame counter_get (\<lambda>i. 0)
       (cng_decode_flush small_avctx) [] 0 [0, 0]))) = [1 / 4] \<and>
   energy (priv_data (snd (cng_decode_frame counter_get (\<lambda>i. 0)
       (cng_decode_flush small_avctx) [] 0 [0, 0]))) = 3 \<and>
   refl_coef (priv_data (snd (cng_decode_frame counter_get (\<lambda>i. 0)
       (cng_decode_flush small_avctx) [] 0 [0, 0]))) = [1 / 4] \<and>
   inited (priv_data (snd (cng_decode_frame counter_get (\<lambda>i. 0)
       (cng_decode_flush small_avctx) [] 0 [0, 0]))) = 1"
proof -
  have w: "cng_wf (cng_decode_flush small_avctx)"
    by (simp add: cng_wf_def cng_decode_flush_def small_avctx_def)
  have i: "inited (priv_data (cng_decode_flush small_avctx)) = 0"
    by (simp add: cng_decode_flush_def)
  have v: "target_energy (priv_data (cng_decode_flush small_avctx)) = 3"
    "target_refl_coef (priv_data (cng_decode_flush small_avctx)) = [1 / 4]"
    by (simp_all add: cng_decode_flush_def small_avctx_def)
  show ?thesis
    using first_frame_snap [OF w i, of counter_get "\<lambda>i. 0" "[]" 0 "[0, 0]"] w i
    unfolding Let_def v by simp
qed

text \<open>
  Claim C1, amended.  \<open>energy\<close> and \<open>target_energy\<close> are of type \<open>int\<close>: a call that
  finds \<open>inited\<close> different from 0 sets \<open>energy\<close> to the sum of the two halves
  \<open>energy / 2\<close> and \<open>target_energy / 2\<close>, each an integer division that truncates, which
  is less than \<open>0.5 * energy + 0.5 * target_energy\<close> when one of them is odd.  Each
  reflection coefficient becomes 0.6 times its old value plus 0.4 times its target as line
  128 computes it: 0.6 and 0.4 are the doubles nearest to them, the two products and the sum
  are rounded to double precision, and the store rounds the sum to a float.
\<close>

theorem smoothing_after_first_frame:
  assumes "cng_wf avctx" and "inited (priv_data avctx) \<noteq> 0"
  shows "let p = priv_data avctx;
             p' = priv_data (snd (cng_decode_frame get buf0 avctx pkt r d))
         in energy p' = energy p sdiv 2 + target_energy p' sdiv 2 \<and>
            (\<forall>i<order p. refl_coef p' ! i =
                to_float (to_double (to_double (to_double 0.6 * refl_coef p ! i) +
                                     to_double (to_double 0.4 * target_refl_coef p' ! i))))"
proof -
  let ?p = "priv_data avctx"
  have wf: "length (refl_coef ?p) = order ?p" "length (target_refl_coef ?p) = order ?p"
    using assms(1) by (simp_all add: cng_wf_def Let_def)
  show ?thesis
    unfolding Let_def decode_energy [OF assms(1)] decode_target_refl [OF assms(1)]
      smooth_coef_def [symmetric]
    using assms(2) wf
    by (simp add: smooth_update_closed sid_update_other sid_update_order nth_append)
qed

text \<open>
  The decoder after the packet \<open>[0, 191]\<close>, whose first coefficient is \<open>1 / 2\<close>, and the
  packet \<open>[0, 159]\<close>, whose first coefficient is \<open>1 / 4\<close>: the call leaves
  \<open>13421773 / 33554432\<close>, the float nearest to \<open>2 / 5\<close>, in \<open>refl_coef[0]\<close>.
\<close>

theorem smoothing_after_first_frame_witness:
  "cng_wf (decoded_once [0, 191]) \<and> inited (priv_data (decoded_once [0, 191])) \<noteq> 0 \<and>
   energy (priv_data (snd (cng_decode_frame counter_get (\<lambda>i. 0) (decoded_once [0, 191]) [0, 159] 0
             (replicate 640 0)))) = 810832480 \<and>
   refl_coef (priv_data (decoded_once [0, 191])) ! 0 = 1 / 2 \<and>
   target_refl_coef (priv_data (snd (cng_decode_frame counter_get (\<lambda>i. 0) (decoded_once [0, 191])
             [0, 159] 0 (replicate 640 0)))) ! 0 = 1 / 4 \<and>
   refl_coef (priv_data (snd (cng_decode_frame counter_get (\<lambda>i. 0) (decoded_once [0, 191]) [0, 159] 0
             (replicate 640 0)))) ! 0 = 13421773 / 33554432"
proof -
  let ?a = "decoded_once [0, 191]"
  let ?p' = "priv_data (snd (cng_decode_frame counter_get (\<lambda>i. 0) ?a [0, 159] 0 (replicate 640 0)))"
  have i: "inited (priv_data ?a) \<noteq> 0" by (simp add: decoded_once_energy)
  have o: "order (priv_data ?a) = 12" by (rule decoded_once_order)
  have e: "energy (priv_data ?a) = 810832481"
    by (simp add: decoded_once_energy sid_energy_0_any)
  have r: "refl_coef (priv_data ?a) ! 0 = 1 / 2"
    unfolding decoded_once_refl
    by (simp add: sid_update_closed fresh_avctx_eq sid_coefs_0_191)
  have t: "target_energy ?p' = 810832481"
    unfolding decode_energy [OF decoded_once_wf]
    by (simp add: sid_update_closed sid_energy_0_any)
  have lt: "length (target_refl_coef (priv_data ?a)) = 12"
    using decoded_once_wf [of "[0, 191]"] o by (simp add: cng_wf_def Let_def)
  have c: "target_refl_coef ?p' ! 0 = 1 / 4"
    unfolding decode_target_refl [OF decoded_once_wf]
    using lt by (simp add: sid_update_closed o sid_coefs_0_159)
  note s = smoothing_after_first_frame [OF decoded_once_wf i, of counter_get "\<lambda>i. 0" "[0, 159]" 0
        "replicate 640 0", unfolded Let_def o t e]
  from s have s1: "energy ?p' = 810832481 sdiv 2 + 810832481 sdiv 2" by blast
  from s have s2: "\<forall>i<12. refl_coef ?p' ! i =
      to_float (to_double (to_double (to_double 0.6 * refl_coef (priv_data ?a) ! i) +
                           to_double (to_double 0.4 * target_refl_coef ?p' ! i)))" by blast
  have "refl_coef ?p' ! 0 = smooth_coef (1 / 2) (1 / 4)"
    using s2 [rule_format, of 0] unfolding r c smooth_coef_def by simp
  then have x: "refl_coef ?p' ! 0 = 13421773 / 33554432"
    unfolding smooth_coef_example .
  have y: "energy ?p' = 810832480" unfolding s1 by (simp add: signed_divide_int_def)
  show ?thesis using decoded_once_wf i y r c x by blast
qed

text \<open>
  The claim as it is worded fails on the second call of a decoder whose first packet is the
  byte 0: the first call sets both energies to 810832481, the second leaves \<open>energy\<close> at
  \<open>405416240 + 405416240 = 810832480\<close>.
\<close>

theorem smoothing_energy_counterexample:
  "inited (priv_data (decoded_once [0])) \<noteq> 0 \<and>
   real_of_int (energy (priv_data (snd (cng_decode_frame counter_get (\<lambda>i. 0) (decoded_once [0]) [] 0
                   (replicate 640 0)))))
     \<noteq> 0.5 * real_of_int (energy (priv_data (decoded_once [0])))
       + 0.5 * real_of_int (target_energy
           (priv_data (snd (cng_decode_frame counter_get (\<lambda>i. 0) (decoded_once [0]) [] 0
                  (replicate 640 0)))))"
  unfolding decode_energy [OF decoded_once_wf]
  by (simp add: sid_update_Nil decoded_once_0 signed_divide_int_def)

text \<open>
  Claim C2, amended.  A packet that is not empty sets \<open>target_energy\<close>, an \<open>int\<close>, to
  \<open>1081109975 * 10^(-byte0/10) * 0.75\<close> with its fraction cut off; it sets
  \<open>target_refl_coef[i]\<close> to \<open>(byte\<^sub>1\<^sub>+\<^sub>i - 127) / 128\<close> for each \<open>i\<close> below both the
  order and the number of bytes behind the first, and every other slot to zero.  The bytes
  beyond the index \<open>order\<close> are ignored: the context after the call is that of the call
  with the packet cut to \<open>order + 1\<close> bytes.  A packet of any length is taken: unless
  \<open>ff_get_buffer\<close> fails, the call returns the length of the packet and a frame.
\<close>

theorem sid_payload_targets:
  assumes "cng_wf avctx" and "pkt \<noteq> []"
  shows "let p = priv_data avctx;
             avctx' = snd (cng_decode_frame get buf0 avctx pkt r d);
             p' = priv_data avctx';
             n = min (length pkt - 1) (order p)
         in target_energy p' = \<lfloor>1081109975 * 10 powr (- real (unat (pkt ! 0)) / 10) * 0.75\<rfloor> \<and>
            length (target_refl_coef p') = order p \<and>
            (\<forall>i<n. target_refl_coef p' ! i = (real (unat (pkt ! (1 + i))) - 127) / 128) \<and>
            (\<forall>i. n \<le> i \<and> i < order p \<longrightarrow> target_refl_coef p' ! i = 0) \<and>
            avctx' = snd (cng_decode_frame get buf0 avctx (take (order p + 1) pkt) r d) \<and>
            (0 \<le> r \<longrightarrow>
               (\<exists>fr. fst (cng_decode_frame get buf0 avctx pkt r d) = Inr (int (length pkt), fr)))"
proof -
  let ?p = "priv_data avctx"
  let ?p' = "priv_data (snd (cng_decode_frame get buf0 avctx pkt r d))"
  have wf: "length (refl_coef ?p) = order ?p" "length (target_refl_coef ?p) = order ?p"
    using assms(1) by (simp_all add: cng_wf_def Let_def)
  have t: "target_refl_coef ?p' = sid_coefs pkt (order ?p)"
    using wf assms(2)
    by (simp add: decode_target_refl [OF assms(1)] sid_update_closed)
  have e: "target_energy ?p' = sid_energy pkt"
    using assms(2) by (simp add: decode_energy [OF assms(1)] sid_update_closed)
  have r: "0 \<le> r \<longrightarrow>
      (\<exists>fr. fst (cng_decode_frame get buf0 avctx pkt r d) = Inr (int (length pkt), fr))"
    by (simp add: decode_fst)
  show ?thesis
    unfolding Let_def t e decode_snd_take
    using r by (simp add: sid_energy_floor sid_coefs_nth sid_coefs_nth_zero length_sid_coefs)
qed

theorem sid_payload_targets_witness:
  "cng_wf fresh_avctx \<and> [20, 255, 0] \<noteq> ([] :: 8 word list) \<and>
   target_energy (priv_data (snd (cng_decode_frame counter_get (\<lambda>i. 0) fresh_avctx [20, 255, 0] 0
       (replicate 640 0)))) = \<lfloor>1081109975 * 10 powr (- real (unat (20 :: 8 word)) / 10) * 0.75\<rfloor> \<and>
   length (target_refl_coef (priv_data (snd (cng_decode_frame counter_get (\<lambda>i. 0) fresh_avctx
       [20, 255, 0] 0 (replicate 640 0))))) = 12 \<and>
   target_refl_coef (priv_data (snd (cng_decode_frame counter_get (\<lambda>i. 0) fresh_avctx
       [20, 255, 0] 0 (replicate 640 0)))) ! 0 = 1 \<and>
   target_refl_coef (priv_data (snd (cng_decode_frame counter_get (\<lambda>i. 0) fresh_avctx
       [20, 255, 0] 0 (replicate 640 0)))) ! 1 = - 127 / 128 \<and>
   target_refl_coef (priv_data (snd (cng_decode_frame counter_get (\<lambda>i. 0) fresh_avctx
       [20, 255, 0] 0 (replicate 640 0)))) ! 2 = 0 \<and>
   (\<exists>fr. fst (cng_decode_frame counter_get (\<lambda>i. 0) fresh_avctx [20, 255, 0] 0 (replicate 640 0))
           = Inr (3, fr))"
proof -
  let ?call = "cng_decode_frame counter_get (\<lambda>i. 0) fresh_avctx [20, 255, 0] 0 (replicate 640 0)"
  let ?t = "target_refl_coef (priv_data (snd ?call))"
  have n: "[20, 255, 0] \<noteq> ([] :: 8 word list)" by simp
  have o: "order (priv_data fresh_avctx) = 12" by (simp add: fresh_avctx_eq)
  note t = sid_payload_targets [OF fresh_avctx_wf n, of counter_get "\<lambda>i. 0" 0 "replicate 640 0",
      unfolded Let_def o]
  from t have e: "target_energy (priv_data (snd ?call)) =
      \<lfloor>1081109975 * 10 powr (- real (unat (20 :: 8 word)) / 10) * 0.75\<rfloor>"
    and l: "length ?t = 12"
    and f: "\<exists>fr. fst ?call = Inr (3, fr)"
    by simp_all
  from t have q1: "\<forall>i<min (length [20, 255, 0 :: 8 word] - 1) 12.
      ?t ! i = (real (unat ([20, 255, 0 :: 8 word] ! (1 + i))) - 127) / 128"
    and q2: "\<forall>i. min (length [20, 255, 0 :: 8 word] - 1) 12 \<le> i \<and> i < 12 \<longrightarrow> ?t ! i = 0"
    by blast+
  have c0: "?t ! 0 = 1" using q1 [rule_format, of 0] by simp
  have c1: "?t ! 1 = - 127 / 128" using q1 [rule_format, of 1] by simp
  have c2: "?t ! 2 = 0" using q2 [rule_format, of 2] by simp
  show ?thesis using fresh_avctx_wf n e l c0 c1 c2 f by blast
qed

text \<open>
  The claim as it is worded fails for the packet that holds the byte 0: the formula gives
  810832481.25, the field holds 810832481.
\<close>

theorem sid_energy_counterexample:
  "real_of_int (target_energy (priv_data (decoded_once [0])))
     \<noteq> 1081109975 * 10 powr (- real (unat ([0 :: 8 word] ! 0)) / 10) * 0.75"
  by (simp add: decoded_once_0)

text \<open>
  Claim C3.  \<open>make_lpc_coefs\<close>, with its two buffers, the swap of \<open>next\<close> and \<open>cur\<close> and the
  copy at its end, leaves in the first \<open>ord\<close> cells of \<open>lpc\<close> what the step-up recursion
  computes from the first \<open>ord\<close> reflection coefficients, and the cells behind them as they
  were.  Whatever \<open>buf\<close> holds on entry has no part in the result, and no law of arithmetic
  is used: the two computations do the same additions and multiplications.
\<close>

theorem make_lpc_coefs_step_up:
  fixes lpc refls :: "'a::{plus,times} list"
  assumes "ord \<le> 100" and "ord \<le> length lpc" and "ord \<le> length refls"
  shows "make_lpc_coefs buf0 lpc refls ord = step_up_recursion (take ord refls) @ drop ord lpc"
  using assms by (rule make_lpc_coefs_closed)

theorem make_lpc_coefs_step_up_witness:
  "(2::nat) \<le> 100 \<and> 2 \<le> length [0, 0, 5 :: int] \<and> 2 \<le> length [2, 3, 4 :: int] \<and>
   make_lpc_coefs (\<lambda>i. 7) [0, 0, 5] [2, 3, 4 :: int] 2 = [8, 3, 5]"
proof -
  have h: "(2::nat) \<le> 100" "2 \<le> length [0, 0, 5 :: int]" "2 \<le> length [2, 3, 4 :: int]"
    by simp_all
  show ?thesis
    using make_lpc_coefs_step_up [OF h, of "\<lambda>i. 7"]
    by (simp add: step_up_recursion_def step_up_def)
qed

text \<open>
  Claim C4, amended.  After a call, \<open>excitation\<close> holds \<open>frame_size\<close> samples, the
  \<open>k\<close>-th of which is \<open>scaling\<close> times the \<open>k\<close>-th number drawn from the generator in this
  call, masked to 16 bits and lowered by \<open>0x8000\<close>, which lies between -32768 and 32767,
  the product rounded to a float.  \<open>e\<close> starts at 1 and is multiplied, for each of the
  \<open>order\<close> coefficients after the smoothing of this call in turn, by \<open>1 - refl_coef[i]\<^sup>2\<close>,
  where the square is rounded to a float, the difference and the product to double
  precision, and the store to a float.  \<open>scaling\<close> is the square root of
  \<open>e * energy / 1081109975\<close> in which \<open>energy\<close> and the constant are converted to float
  (the constant becomes 1081110016), the product and the quotient are rounded to a float,
  and the root is rounded to double precision and then to a float.
\<close>

theorem excitation_scaling:
  assumes "cng_wf avctx"
  shows "let p = priv_data avctx; fs = frame_size avctx;
             p' = priv_data (snd (cng_decode_frame get buf0 avctx pkt r d));
             e = foldl (\<lambda>e r. to_float (to_double (e * to_double (1 - to_float (r * r))))) 1
                   (refl_coef p');
             scaling = to_float (to_double (sqrt
                   (to_float (to_float (e * to_float (real_of_int (energy p'))) /
                      to_float 1081109975))));
             draws = lfg_draws get (lfg p) fs
         in length (refl_coef p') = order p' \<and> to_float 1081109975 = 1081110016 \<and>
            length draws = fs \<and>
            excitation p' = map (\<lambda>x. to_float (scaling * real_of_int (centre16 x))) draws \<and>
            lfg p' = lfg_skip get (lfg p) fs \<and>
            (\<forall>x. centre16 x = int (unat x mod 65536) - 32768 \<and>
                 - 32768 \<le> centre16 x \<and> centre16 x \<le> 32767)"
proof -
  let ?p' = "priv_data (snd (cng_decode_frame get buf0 avctx pkt r d))"
  have l: "length (refl_coef ?p') = order ?p'"
    using decode_wf [OF assms, of get buf0 pkt r d] by (simp add: cng_wf_def Let_def)
  show ?thesis
    unfolding Let_def gain_step_fun noise_scaling_def [symmetric]
    using l centre16_range
    by (simp add: decode_excitation [OF assms] length_lfg_draws centre16_eq [symmetric]
        float_1081109975)
qed

text \<open>
  The first call of a fresh decoder with the packet \<open>[0]\<close>: all coefficients are 0, so
  \<open>e\<close> is 1, \<open>energy\<close> is 810832481, which becomes the float 810832512, the quotient is
  \<open>3 / 4\<close> and \<open>scaling\<close> is \<open>14529495 / 2\<^sup>2\<^sup>4\<close>; the first number drawn is 0, so the
  first sample is \<open>- 14529495 / 512\<close>.
\<close>

theorem excitation_scaling_witness:
  "cng_wf fresh_avctx \<and>
   refl_coef (priv_data (decoded_once [0])) = replicate 12 0 \<and>
   energy (priv_data (decoded_once [0])) = 810832481 \<and>
   lfg_draws counter_get (lfg (priv_data fresh_avctx)) (frame_size fresh_avctx) ! 0 = 0 \<and>
   centre16 0 = - 32768 \<and>
   length (excitation (priv_data (decoded_once [0]))) = 640 \<and>
   excitation (priv_data (decoded_once [0])) ! 0 = - (14529495 / 512) \<and>
   lfg (priv_data (decoded_once [0])) = 640"
proof -
  let ?p' = "priv_data (decoded_once [0])"
  let ?draws = "lfg_draws counter_get (lfg (priv_data fresh_avctx)) (frame_size fresh_avctx)"
  note s = excitation_scaling [OF fresh_avctx_wf, of counter_get "\<lambda>i. 0" "[0]" 0 "replicate 640 0",
      folded decoded_once_def, unfolded Let_def decoded_once_0_refl decoded_once_0 gain_step_fun
      foldl_gain_step_0 noise_scaling_def [symmetric] noise_scaling_example]
  from s have x: "excitation ?p' =
      map (\<lambda>x. to_float (14529495 / 2 ^ 24 * real_of_int (centre16 x))) ?draws"
    by blast
  from s have g: "lfg ?p' = lfg_skip counter_get (lfg (priv_data fresh_avctx)) (frame_size fresh_avctx)"
    by blast
  from s have n: "length ?draws = frame_size fresh_avctx" by blast
  have f: "frame_size fresh_avctx = 640" "lfg (priv_data fresh_avctx) = 0"
    by (simp_all add: fresh_avctx_eq)
  have d: "?draws ! 0 = 0"
    unfolding f by (subst lfg_draws_0) (simp_all add: counter_get_def)
  have sk: "lfg_skip counter_get a k = a + k" for a k
    by (induction k arbitrary: a) (simp_all add: counter_get_def)
  have x0: "excitation ?p' ! 0 = - (14529495 / 512)"
    unfolding x using n d f float_sample_example by (simp add: centre16_0)
  have len: "length (excitation ?p') = 640" unfolding x using n f by simp
  have g': "lfg ?p' = 640" unfolding g f sk by simp
  show ?thesis
    using fresh_avctx_wf decoded_once_0_refl decoded_once_0(2) d centre16_0 len x0 g' by blast
qed

text \<open>
  The claim as it is worded, with the product, the quotient and the square root exact,
  fails on that call: the exact \<open>sqrt (810832481 / 1081109975)\<close> is not
  \<open>14529495 / 2\<^sup>2\<^sup>4\<close>, so the first sample differs.
\<close>

theorem excitation_scaling_counterexample:
  "cng_wf fresh_avctx \<and>
   (let p = priv_data fresh_avctx; fs = frame_size fresh_avctx;
        p' = priv_data (snd (cng_decode_frame counter_get (\<lambda>i. 0) fresh_avctx [0] 0
               (replicate 640 0)));
        e = (\<Prod>i<order p'. 1 - (refl_coef p' ! i)\<^sup>2);
        scaling = sqrt (e * real_of_int (energy p') / 1081109975);
        draws = lfg_draws counter_get (lfg p) fs
    in excitation p' \<noteq> map (\<lambda>x. scaling * real_of_int (centre16 x)) draws)"
proof -
  let ?p' = "priv_data (decoded_once [0])"
  let ?draws = "lfg_draws counter_get (lfg (priv_data fresh_avctx)) (frame_size fresh_avctx)"
  have f: "frame_size fresh_avctx = 640" "lfg (priv_data fresh_avctx) = 0"
    by (simp_all add: fresh_avctx_eq)
  have n: "length ?draws = 640" unfolding f by (rule length_lfg_draws)
  have d: "?draws ! 0 = 0"
    unfolding f by (subst lfg_draws_0) (simp_all add: counter_get_def)
  have x: "excitation ?p' =
      map (\<lambda>x. to_float (14529495 / 2 ^ 24 * real_of_int (centre16 x))) ?draws"
    unfolding decoded_once_def decode_excitation [OF fresh_avctx_wf]
    unfolding decoded_once_def [symmetric] decoded_once_0_refl decoded_once_0 foldl_gain_step_0
      noise_scaling_example ..
  have x0: "excitation ?p' ! 0 = - (14529495 / 512)"
    unfolding x using n d float_sample_example by (simp add: centre16_0)
  have e: "(\<Prod>i<order ?p'. 1 - (refl_coef ?p' ! i)\<^sup>2) = 1"
    unfolding decoded_once_order decoded_once_0_refl by (rule prod.neutral) simp
  have "excitation ?p' \<noteq>
      map (\<lambda>x. sqrt (1 * real_of_int 810832481 / 1081109975) * real_of_int (centre16 x)) ?draws"
  proof
    assume "excitation ?p' =
      map (\<lambda>x. sqrt (1 * real_of_int 810832481 / 1081109975) * real_of_int (centre16 x)) ?draws"
    then have "excitation ?p' ! 0 =
      map (\<lambda>x. sqrt (1 * real_of_int 810832481 / 1081109975) * real_of_int (centre16 x)) ?draws ! 0"
      by (simp only:)
    then have "- (14529495 / 512) = sqrt (810832481 / 1081109975) * (- 32768)"
      unfolding x0 using n d by (simp add: centre16_0)
    then have "sqrt (810832481 / 1081109975) = 14529495 / 2 ^ 24" by simp
    then show False using sqrt_energy_ratio by (simp only:)
  qed
  then show ?thesis
    unfolding Let_def decoded_once_def [symmetric] e decoded_once_0
    using fresh_avctx_wf by (simp only: simp_thms)
qed

text \<open>
  Claim C10.  A call in which \<open>ff_get_buffer\<close> fails returns the error code and no frame.
  It leaves the energy, the reflection coefficients, the filter coefficients, the state of
  the generator, the excitation and the part of \<open>filter_out\<close> behind the first \<open>order\<close>
  cells as the same call leaves them when \<open>ff_get_buffer\<close> succeeds; the first \<open>order\<close>
  cells of \<open>filter_out\<close> are those from before the call, where the call that succeeds has
  put the last \<open>order\<close> samples of its output.
\<close>

theorem failed_get_buffer:
  assumes "cng_wf avctx" and "r < 0"
  shows "let p = priv_data avctx; n = order p;
             failed = cng_decode_frame get buf0 avctx pkt r d;
             emitted = cng_decode_frame get buf0 avctx pkt 0 d;
             pf = priv_data (snd failed); pe = priv_data (snd emitted)
         in fst failed = Inl r \<and>
            energy pf = energy pe \<and> refl_coef pf = refl_coef pe \<and> lpc_coef pf = lpc_coef pe \<and>
            lfg pf = lfg pe \<and> lfg pf = lfg_skip get (lfg p) (frame_size avctx) \<and>
            excitation pf = excitation pe \<and> inited pf = inited pe \<and>
            target_energy pf = target_energy pe \<and> target_refl_coef pf = target_refl_coef pe \<and>
            drop n (filter_out pf) = drop n (filter_out pe) \<and>
            take n (filter_out pf) = take n (filter_out p) \<and>
            take n (filter_out pe) = drop (frame_size avctx - n) (synthesis_output (snd emitted))"
proof -
  have fo: "take (order (priv_data avctx)) (filter_out (priv_data (snd (cng_decode_frame get buf0 avctx pkt r d))))
      = take (order (priv_data avctx)) (filter_out (priv_data avctx))"
    using decode_filter_out(1) [OF assms(1), of get buf0 pkt r d] assms(2) by simp
  have fe: "take (order (priv_data avctx)) (filter_out (priv_data (snd (cng_decode_frame get buf0 avctx pkt 0 d))))
      = drop (frame_size avctx - order (priv_data avctx))
          (synthesis_output (snd (cng_decode_frame get buf0 avctx pkt 0 d)))"
    using decode_filter_out(1) [OF assms(1), of get buf0 pkt 0 d] by simp
  have r: "fst (cng_decode_frame get buf0 avctx pkt r d) = Inl r"
    using assms(2) by (simp add: decode_fst)
  show ?thesis
    unfolding Let_def
    using fo fe r decode_filter_out(2) [OF assms(1), of get buf0 pkt r d 0 d]
    by (simp add: decode_priv [OF assms(1)] Let_def)
qed

theorem failed_get_buffer_witness:
  "cng_wf fresh_avctx \<and> (- 12 :: int) < 0 \<and>
   (let p = priv_data fresh_avctx; n = order p;
        failed = cng_decode_frame counter_get (\<lambda>i. 0) fresh_avctx [20] (- 12) (replicate 640 0);
        emitted = cng_decode_frame counter_get (\<lambda>i. 0) fresh_avctx [20] 0 (replicate 640 0);
        pf = priv_data (snd failed); pe = priv_data (snd emitted)
    in fst failed = Inl (- 12) \<and>
       energy pf = energy pe \<and> refl_coef pf = refl_coef pe \<and> lpc_coef pf = lpc_coef pe \<and>
       lfg pf = lfg pe \<and> lfg pf = lfg_skip counter_get (lfg p) (frame_size fresh_avctx) \<and>
       excitation pf = excitation pe \<and> inited pf = inited pe \<and>
       target_energy pf = target_energy pe \<and> target_refl_coef pf = target_refl_coef pe \<and>
       drop n (filter_out pf) = drop n (filter_out pe) \<and>
       take n (filter_out pf) = take n (filter_out p) \<and>
       take n (filter_out pe) = drop (frame_size fresh_avctx - n) (synthesis_output (snd emitted)))"
proof -
  have r: "(- 12 :: int) < 0" by simp
  show ?thesis
    using failed_get_buffer [OF fresh_avctx_wf r, of counter_get "\<lambda>i. 0" "[20]" "replicate 640 0"] fresh_avctx_wf r
    by blast
qed

text \<open>
  Claim C5.  After any sequence of calls of a decoder that \<open>cng_decode_init\<close> has set up,
  the first \<open>order\<close> cells of \<open>filter_out\<close>, from which the synthesis filter of the next
  call starts, hold the last \<open>order\<close> samples that the filter has put out for the last
  frame emitted, and zeros when no frame has been emitted yet.  A call whose
  \<open>ff_get_buffer\<close> fails emits no frame and leaves these cells alone.  The samples of a
  frame are the output of the filter, each converted to \<open>int16_t\<close>.
\<close>

theorem filter_history_carry_over:
  assumes "cng_decode_init av_lfg_init malloc_ok avctx0 = Inr avctx"
  shows "let avctx' = snd (cng_run get avctx evs); n = order (priv_data avctx')
         in take n (filter_out (priv_data avctx')) =
              (case last_synthesis get avctx None evs of
                 None \<Rightarrow> replicate n 0
               | Some S \<Rightarrow> drop (length S - n) S) \<and>
            (\<forall>pkt b r d. 0 \<le> r \<and> frame_size avctx' \<le> length d \<longrightarrow>
               fst (cng_step get avctx' (Decode pkt b r d)) =
                 Some (map c_float_to_int16
                        (synthesis_output (snd (cng_step get avctx' (Decode pkt b r d))))))"
proof -
  have wf: "cng_wf avctx" using assms by (rule init_wf)
  have z: "take (order (priv_data avctx)) (filter_out (priv_data avctx)) =
         (case None of None \<Rightarrow> replicate (order (priv_data avctx)) 0
                     | Some S \<Rightarrow> drop (length S - order (priv_data avctx)) S)"
    unfolding init_result [OF assms] by simp
  have wf': "cng_wf (snd (cng_run get avctx evs))" using wf by (rule run_wf)
  show ?thesis
    unfolding Let_def run_wf(2) [OF wf]
    using history_run [OF wf z, of get evs] step_samples [OF wf']
    by (simp add: not_less)
qed

theorem filter_history_carry_over_witness:
  "cng_decode_init counter_init (\<lambda>k. True) zeroed_avctx = Inr fresh_avctx \<and>
   take 12 (filter_out (priv_data (snd (cng_run counter_get fresh_avctx
       [Decode [20] (\<lambda>i. 0) (- 12) []])))) = replicate 12 0 \<and>
   fst (cng_step counter_get fresh_avctx (Decode [20] (\<lambda>i. 0) 0 (replicate 640 0))) =
     Some (map c_float_to_int16
       (synthesis_output (snd (cng_step counter_get fresh_avctx
          (Decode [20] (\<lambda>i. 0) 0 (replicate 640 0))))))"
proof -
  have w: "order (priv_data (snd (cng_run counter_get fresh_avctx evs))) = 12" for evs
    unfolding run_wf(2) [OF fresh_avctx_wf] by (simp add: fresh_avctx_eq)
  have l: "last_synthesis counter_get fresh_avctx None [Decode [20] (\<lambda>i. 0) (- 12) []] = None"
    using step_emits [of counter_get fresh_avctx "[20]" "\<lambda>i. 0" "- 12" "[]"]
    by (cases "cng_step counter_get fresh_avctx (Decode [20] (\<lambda>i. 0) (- 12) [])") simp
  have f: "frame_size fresh_avctx = 640" by (simp add: fresh_avctx_eq)
  have 1: "take 12 (filter_out (priv_data (snd (cng_run counter_get fresh_avctx
       [Decode [20] (\<lambda>i. 0) (- 12) []])))) = replicate 12 0"
    using filter_history_carry_over [OF cng_decode_init_fresh, of counter_get
        "[Decode [20] (\<lambda>i. 0) (- 12) []]"]
    unfolding Let_def w l by simp
  have 2: "fst (cng_step counter_get fresh_avctx (Decode [20] (\<lambda>i. 0) 0 (replicate 640 0))) =
     Some (map c_float_to_int16
       (synthesis_output (snd (cng_step counter_get fresh_avctx
          (Decode [20] (\<lambda>i. 0) 0 (replicate 640 0))))))"
    using filter_history_carry_over [OF cng_decode_init_fresh, of counter_get "[]"]
    unfolding Let_def by (simp add: f)
  show ?thesis using cng_decode_init_fresh 1 2 by simp
qed

text \<open>
  Claim C8, amended.  After any sequence of calls of a decoder that \<open>cng_decode_init\<close> has
  set up, each of the 12 reflection coefficients lies between \<open>-127/128\<close> and 1, the two
  bounds included: above -1, and at most 1.
\<close>

theorem refl_coef_range:
  assumes "cng_decode_init av_lfg_init malloc_ok avctx0 = Inr avctx"
  shows "length (refl_coef (priv_data (snd (cng_run get avctx evs)))) = 12 \<and>
         (\<forall>x\<in>set (refl_coef (priv_data (snd (cng_run get avctx evs)))). - 127 / 128 \<le> x \<and> x \<le> 1)"
proof -
  have wf: "cng_wf avctx" using assms by (rule init_wf)
  have z: "\<forall>x\<in>set (refl_coef (priv_data avctx)). - 127 / 128 \<le> x \<and> x \<le> 1"
    "\<forall>x\<in>set (target_refl_coef (priv_data avctx)). - 127 / 128 \<le> x \<and> x \<le> 1"
    unfolding init_result [OF assms] by simp_all
  have "order (priv_data avctx) = 12" unfolding init_result [OF assms] by simp
  then have "length (refl_coef (priv_data (snd (cng_run get avctx evs)))) = 12"
    using run_wf(1,2) [OF wf, of get evs] by (simp add: cng_wf_def Let_def)
  then show ?thesis using coef_bounds_run [OF wf z] by simp
qed

theorem refl_coef_range_witness:
  "cng_decode_init counter_init (\<lambda>k. True) zeroed_avctx = Inr fresh_avctx \<and>
   length (refl_coef (priv_data (snd (cng_run counter_get fresh_avctx
       [Decode [0, 255] (\<lambda>i. 0) 0 (replicate 640 0), Flush])))) = 12 \<and>
   - 127 / 128 \<le> refl_coef (priv_data (snd (cng_run counter_get fresh_avctx
       [Decode [0, 255] (\<lambda>i. 0) 0 (replicate 640 0), Flush]))) ! 0 \<and>
   refl_coef (priv_data (snd (cng_run counter_get fresh_avctx
       [Decode [0, 255] (\<lambda>i. 0) 0 (replicate 640 0), Flush]))) ! 0 \<le> 1"
proof -
  let ?r = "refl_coef (priv_data (snd (cng_run counter_get fresh_avctx
       [Decode [0, 255] (\<lambda>i. 0) 0 (replicate 640 0), Flush])))"
  note r = refl_coef_range [OF cng_decode_init_fresh, of counter_get
      "[Decode [0, 255] (\<lambda>i. 0) 0 (replicate 640 0), Flush]"]
  then have "?r ! 0 \<in> set ?r" by (intro nth_mem) simp
  with r show ?thesis using cng_decode_init_fresh by blast
qed

text \<open>
  The claim as it is worded fails at the upper bound: the byte 255 stands for the coefficient
  \<open>(255 - 127) / 128 = 1\<close>, which the first call copies into \<open>refl_coef\<close>.
\<close>

theorem refl_coef_range_counterexample:
  "0 < order (priv_data (decoded_once [0, 255])) \<and>
   refl_coef (priv_data (decoded_once [0, 255])) ! 0 = 1"
proof -
  have "sid_coefs [0, 255] 12 ! 0 = 1"
    by (simp add: sid_coefs_def)
  then show ?thesis
    unfolding decoded_once_def decode_target_refl [OF fresh_avctx_wf]
    by (simp add: sid_update_closed smooth_update_closed fresh_avctx_eq)
qed

text \<open>
  Claim C7.  Two decoders that \<open>cng_decode_init\<close> has set up, each from a zero-filled
  \<open>priv_data\<close> and with the same generator, which the function seeds with 0, emit the same
  frames, sample for sample, for the same sequence of packets and flushes.  The two may
  differ in what the context held besides, in what \<open>buf\<close> holds on entry of
  \<open>make_lpc_coefs\<close>, in the buffers that \<open>ff_get_buffer\<close> hands out and in the error codes
  with which it fails, as long as it fails in the same calls.
\<close>

theorem decoder_determinism:
  assumes "priv_data_zeroed avctx1" and "priv_data_zeroed avctx2"
    and "cng_decode_init av_lfg_init malloc_ok1 avctx1 = Inr fresh1"
    and "cng_decode_init av_lfg_init malloc_ok2 avctx2 = Inr fresh2"
    and "list_all2 (same_input 640) evs1 evs2"
  shows "fst (cng_run get fresh1 evs1) = fst (cng_run get fresh2 evs2)"
proof -
  have e: "fresh1 = fresh2"
    using assms(1,2) unfolding init_result [OF assms(3)] init_result [OF assms(4)]
    by (simp add: priv_data_zeroed_def)
  have wf: "cng_wf fresh2" using assms(4) by (rule init_wf)
  have "frame_size fresh2 = 640" unfolding init_result [OF assms(4)] by simp
  with assms(5) wf have "cng_run get fresh2 evs1 = cng_run get fresh2 evs2"
    by (rule run_indep)
  then show ?thesis unfolding e by simp
qed

theorem decoder_determinism_witness:
  "priv_data_zeroed zeroed_avctx \<and> priv_data_zeroed (zeroed_avctx\<lparr>sample_rate := 44100\<rparr>) \<and>
   cng_decode_init counter_init (\<lambda>k. True) zeroed_avctx = Inr fresh_avctx \<and>
   cng_decode_init counter_init (\<lambda>k. k < 5) (zeroed_avctx\<lparr>sample_rate := 44100\<rparr>) = Inr fresh_avctx \<and>
   list_all2 (same_input 640)
     [Decode [20, 200] (\<lambda>i. 0) 0 (replicate 640 0), Decode [] (\<lambda>i. 0) (- 12) [], Flush]
     [Decode [20, 200] (\<lambda>i. 1) 0 (replicate 700 9), Decode [] (\<lambda>i. 1) (- 5) [], Flush] \<and>
   fst (cng_run counter_get fresh_avctx
     [Decode [20, 200] (\<lambda>i. 0) 0 (replicate 640 0), Decode [] (\<lambda>i. 0) (- 12) [], Flush]) =
   fst (cng_run counter_get fresh_avctx
     [Decode [20, 200] (\<lambda>i. 1) 0 (replicate 700 9), Decode [] (\<lambda>i. 1) (- 5) [], Flush])"
proof -
  have z: "priv_data_zeroed zeroed_avctx" "priv_data_zeroed (zeroed_avctx\<lparr>sample_rate := 44100\<rparr>)"
    by (simp_all add: priv_data_zeroed_def zeroed_avctx_def)
  have i: "cng_decode_init counter_init (\<lambda>k. True) zeroed_avctx = Inr fresh_avctx"
    "cng_decode_init counter_init (\<lambda>k. k < 5) (zeroed_avctx\<lparr>sample_rate := 44100\<rparr>) = Inr fresh_avctx"
    by (simp_all add: fresh_avctx_def cng_decode_init_def Let_def zeroed_avctx_def)
  have l: "list_all2 (same_input 640)
     [Decode [20, 200] (\<lambda>i. 0) 0 (replicate 640 0), Decode [] (\<lambda>i. 0) (- 12) [], Flush]
     [Decode [20, 200] (\<lambda>i. 1) 0 (replicate 700 9), Decode [] (\<lambda>i. 1) (- 5) [], Flush]"
    by simp
  show ?thesis
    using decoder_determinism [OF z i l, of counter_get] z i l by simp
qed

end
